theory Spec2Isabelle
  imports Complex_Main "HOL-Library.AList" "HOL-Library.Multiset" "HOL-Library.Sublist" "HOL-Library.Char_ord" "HOL-Library.List_Lexorder"
begin

section \<open>JavaScript values and strings\<close>

text \<open>
  The front-end is written in JavaScript. The values it tests for truthiness are modelled by
  a datatype of their own; numbers are rationals with a separate \<open>NaN\<close>, and every object,
  array or function is the opaque \<open>JObj\<close> (always truthy).
\<close>

datatype jsval = JUndefined | JNull | JBool bool | JNum rat | JNaN | JStr string | JObj

fun truthy :: "jsval \<Rightarrow> bool" where
  "truthy JUndefined = False"
| "truthy JNull = False"
| "truthy (JBool b) = b"
| "truthy (JNum n) = (n \<noteq> 0)"
| "truthy JNaN = False"
| "truthy (JStr s) = (s \<noteq> [])"
| "truthy JObj = True"

text \<open>\<open>String.prototype.trim\<close>: white space and line terminators that fit in a \<open>char\<close>.\<close>

definition isWhiteSpace :: "char \<Rightarrow> bool" where
  "isWhiteSpace c = (c \<in> set [CHR 0x09, CHR 0x0A, CHR 0x0B, CHR 0x0C, CHR 0x0D, CHR 0x20, CHR 0xA0])"

definition js_trim :: "string \<Rightarrow> string" where
  "js_trim s = rev (dropWhile isWhiteSpace (rev (dropWhile isWhiteSpace s)))"


text \<open>\<open>String.prototype.includes\<close>: the argument occurs somewhere in the string.\<close>

fun js_includes :: "string \<Rightarrow> string \<Rightarrow> bool" where
  "js_includes [] sub = (sub = [])"
| "js_includes (c # cs) sub = (prefix sub (c # cs) \<or> js_includes cs sub)"


section \<open>Search history (\<open>useSearchHistory\<close>)\<close>

















section \<open>Request queue (\<open>BaseApiService.queueRequest\<close>, \<open>processQueue\<close>)\<close>

text \<open>
  The service runs on the browser's event loop: code runs to its next \<open>await\<close> without
  interruption, and other callbacks run only while an invocation is suspended. The state is
  the fields of the service together with the suspended invocations of \<open>processQueue\<close>:
  those waiting at \<open>await requestFn()\<close> (each with the request it started), those waiting
  at the 50 ms delay of the \<open>finally\<close> block, and the \<open>setTimeout\<close> callbacks scheduled after
  the loop. Two logs record the order in which requests were enqueued and started.
\<close>

definition maxConcurrentRequests :: int where
  "maxConcurrentRequests = 3"

record 'r service =
  requestQueue :: "'r list"
  isProcessingQueue :: bool
  activeRequests :: int
  awaitingRequest :: "'r list"
  awaitingDelay :: nat
  pendingTimers :: nat
  startedLog :: "'r list"
  enqueuedLog :: "'r list"

definition initialService :: "'r service" where
  "initialService =
     \<lparr>requestQueue = [], isProcessingQueue = False, activeRequests = 0, awaitingRequest = [],
      awaitingDelay = 0, pendingTimers = 0, startedLog = [], enqueuedLog = []\<rparr>"

text \<open>
  One evaluation of the \<open>while\<close> test by a running invocation. Either it shifts the first
  request, counts it as active and suspends at \<open>await requestFn()\<close>, or it leaves the loop,
  clears the flag and schedules a timer when requests are still queued.
\<close>

definition loopHead :: "'r service \<Rightarrow> 'r service" where
  "loopHead s =
     (if length (requestQueue s) > 0 \<and> activeRequests s < maxConcurrentRequests
      then (case requestQueue s of
              [] \<Rightarrow> s
            | r # rest \<Rightarrow>
                s\<lparr>requestQueue := rest,
                  activeRequests := activeRequests s + 1,
                  awaitingRequest := awaitingRequest s @ [r],
                  startedLog := startedLog s @ [r]\<rparr>)
      else (let s' = s\<lparr>isProcessingQueue := False\<rparr>
            in if length (requestQueue s') > 0
               then s'\<lparr>pendingTimers := pendingTimers s' + 1\<rparr>
               else s'))"

definition processQueue :: "'r service \<Rightarrow> 'r service" where
  "processQueue s =
     (if isProcessingQueue s \<or> activeRequests s \<ge> maxConcurrentRequests then s
      else loopHead (s\<lparr>isProcessingQueue := True\<rparr>))"

definition queueRequest :: "'r \<Rightarrow> 'r service \<Rightarrow> 'r service" where
  "queueRequest r s =
     processQueue (s\<lparr>requestQueue := requestQueue s @ [r], enqueuedLog := enqueuedLog s @ [r]\<rparr>)"

text \<open>
  What can happen between two runs of code: a caller enqueues a request; the promise of the
  request started by the \<open>i\<close>-th suspended invocation settles (fulfilled or rejected, the
  \<open>finally\<close> block runs in both cases); a 50 ms delay ends and its invocation tests the loop
  again; a scheduled timer calls \<open>processQueue\<close>. An event that is not enabled changes nothing.
\<close>

datatype 'r event = QueueRequest 'r | RequestSettled nat | DelayElapsed | TimerFired

fun step :: "'r event \<Rightarrow> 'r service \<Rightarrow> 'r service" where
  "step (QueueRequest r) s = queueRequest r s"
| "step (RequestSettled i) s =
     (if i < length (awaitingRequest s)
      then s\<lparr>awaitingRequest := take i (awaitingRequest s) @ drop (Suc i) (awaitingRequest s),
             activeRequests := activeRequests s - 1,
             awaitingDelay := awaitingDelay s + 1\<rparr>
      else s)"
| "step DelayElapsed s =
     (if awaitingDelay s > 0 then loopHead (s\<lparr>awaitingDelay := awaitingDelay s - 1\<rparr>) else s)"
| "step TimerFired s =
     (if pendingTimers s > 0 then processQueue (s\<lparr>pendingTimers := pendingTimers s - 1\<rparr>) else s)"

definition run :: "'r event list \<Rightarrow> 'r service \<Rightarrow> 'r service" where
  "run evs s = fold step evs s"

text \<open>
  One round of the running request: its promise settles, then the delay of the \<open>finally\<close>
  block ends.
\<close>

definition settleAndDelay :: "'r service \<Rightarrow> 'r service" where
  "settleAndDelay s = step DelayElapsed (step (RequestSettled 0) s)"

text \<open>
  The invariant of the queue. At every point: the counter is the number of invocations
  waiting for their request, at most one invocation is suspended at all, the flag is set
  exactly while one is, and the started requests followed by the queued ones are the
  enqueued ones. Between two events, moreover, requests are queued only while the flag is
  set.
\<close>

definition queueCore :: "'r service \<Rightarrow> bool" where
  "queueCore s =
     (activeRequests s = int (length (awaitingRequest s)) \<and>
      length (awaitingRequest s) + awaitingDelay s \<le> 1 \<and>
      isProcessingQueue s = (length (awaitingRequest s) + awaitingDelay s = 1) \<and>
      enqueuedLog s = startedLog s @ requestQueue s)"

definition queueInv :: "'r service \<Rightarrow> bool" where
  "queueInv s = (queueCore s \<and> (isProcessingQueue s \<or> requestQueue s = []))"

section \<open>Authentication errors and responses (\<open>BaseApiService\<close>)\<close>

text \<open>
  Modelled from the spec: \<open>secureStorage\<close> is not among the sources. The spec speaks of a
  bearer token and of a check of its validity on a 401, and \<open>handleAuthError\<close> uses the value
  of \<open>secureStorage.getItem('token')\<close> as it is returned, so \<open>getItem\<close> is taken to return the
  stored token, a string, or nothing when no token is stored (\<open>None\<close>).
\<close>

type_synonym stored = "string option"

text \<open>
  A number of the language, and the value of the \<open>exp\<close> property of the decoded payload:
  \<open>undefined\<close> when the payload has no such property, \<open>null\<close>, a boolean, a number, a string,
  or an object or array (with the string that its conversion to a primitive gives).
\<close>

datatype number = NaN | NegInfinity | Finite rat | PosInfinity

datatype expValue =
  ExpUndefined | ExpNull | ExpBool bool | ExpNumber number | ExpString string | ExpObject string

text \<open>
  \<open>decoded\<close> is the outcome of \<open>JSON.parse(atob(token.split('.')[1]))\<close> followed by reading
  \<open>exp\<close>: an exception (of \<open>atob\<close>, of \<open>JSON.parse\<close>, or of the property read when the payload
  is \<open>null\<close>), or the value read.
\<close>

datatype decoded = DecodeFails | Payload expValue

text \<open>
  \<open>payload.exp < currentTime\<close> compares numbers: the left side is converted by the language
  (\<open>undefined\<close> to \<open>NaN\<close>, \<open>null\<close> to 0, \<open>true\<close> to 1, a string by \<open>stringToNumber\<close>, the
  conversion of strings to numbers), and a comparison with \<open>NaN\<close> is false.
\<close>

fun toNumber :: "(string \<Rightarrow> number) \<Rightarrow> expValue \<Rightarrow> number" where
  "toNumber stringToNumber ExpUndefined = NaN"
| "toNumber stringToNumber ExpNull = Finite 0"
| "toNumber stringToNumber (ExpBool b) = Finite (if b then 1 else 0)"
| "toNumber stringToNumber (ExpNumber n) = n"
| "toNumber stringToNumber (ExpString s) = stringToNumber s"
| "toNumber stringToNumber (ExpObject s) = stringToNumber s"

fun numberLess :: "number \<Rightarrow> rat \<Rightarrow> bool" where
  "numberLess NaN t = False"
| "numberLess NegInfinity t = True"
| "numberLess (Finite x) t = (x < t)"
| "numberLess PosInfinity t = False"

text \<open>
  What the handler of authentication errors reads from outside the service: the stored
  token, the decoding of a token, the conversion of strings to numbers, and
  \<open>Date.now() / 1000\<close>.
\<close>

record auth =
  storedToken :: stored
  decodePayload :: "string \<Rightarrow> decoded"
  stringToNumber :: "string \<Rightarrow> number"
  currentTime :: rat

record page =
  href :: string
  tokenRemoved :: bool

record 'j response =
  status :: int
  url :: string
  retryAfterHeader :: "string option"
  json :: "'j option"

text \<open>\<open>response.ok\<close>: the status is in the range 200 to 299.\<close>

definition ok :: "'j response \<Rightarrow> bool" where
  "ok r = (200 \<le> status r \<and> status r \<le> 299)"

text \<open>\<open>secureStorage.removeItem('token'); window.location.href = '/login'\<close>.\<close>

definition redirectToLogin :: "page \<Rightarrow> page" where
  "redirectToLogin p = p\<lparr>tokenRemoved := True, href := ''/login''\<rparr>"

text \<open>
  The \<open>try\<close> block of \<open>handleAuthError\<close>. It is written twice in the source, for admin and
  for other addresses; the two copies differ in what they log only. The result is the
  returned boolean and the page afterwards.
\<close>

definition checkStoredToken :: "auth \<Rightarrow> page \<Rightarrow> bool \<times> page" where
  "checkStoredToken a p =
     (case storedToken a of
        None \<Rightarrow> (True, redirectToLogin p)
      | Some token \<Rightarrow>
          if token = [] then (True, redirectToLogin p)
          else (case decodePayload a token of
                  DecodeFails \<Rightarrow> (True, redirectToLogin p)
                | Payload e \<Rightarrow>
                    if numberLess (toNumber (stringToNumber a) e) (currentTime a)
                    then (True, redirectToLogin p)
                    else (False, p)))"

definition handleAuthError :: "auth \<Rightarrow> 'j response \<Rightarrow> page \<Rightarrow> bool \<times> page" where
  "handleAuthError a r p =
     (if status r = 401 then
        (if url r \<noteq> [] \<and> js_includes (url r) ''/admin/''
         then checkStoredToken a p
         else checkStoredToken a p)
      else if status r = 429 then (False, p)
      else (False, p))"

text \<open>
  The three conditions on the stored token: there is none; its payload cannot be decoded;
  its \<open>exp\<close>, as a number, is less than the current time.
\<close>

definition tokenAbsent :: "auth \<Rightarrow> bool" where
  "tokenAbsent a = (storedToken a = None \<or> storedToken a = Some [])"

definition tokenUndecodable :: "auth \<Rightarrow> bool" where
  "tokenUndecodable a =
     (case storedToken a of
        None \<Rightarrow> False
      | Some token \<Rightarrow> token \<noteq> [] \<and> decodePayload a token = DecodeFails)"

definition tokenExpired :: "auth \<Rightarrow> bool" where
  "tokenExpired a =
     (case storedToken a of
        None \<Rightarrow> False
      | Some token \<Rightarrow>
          token \<noteq> [] \<and>
          (case decodePayload a token of
             DecodeFails \<Rightarrow> False
           | Payload e \<Rightarrow> numberLess (toNumber (stringToNumber a) e) (currentTime a)))"

text \<open>\<open>String.prototype.replace\<close> with a string pattern: the first occurrence is replaced.\<close>

fun js_replace :: "string \<Rightarrow> string \<Rightarrow> string \<Rightarrow> string" where
  "js_replace [] pat rep = (if pat = [] then rep else [])"
| "js_replace (c # cs) pat rep =
     (if prefix pat (c # cs) then rep @ drop (length pat) (c # cs)
      else c # js_replace cs pat rep)"

text \<open>
  What \<open>handleResponse\<close> does with a response: it throws an error with a message, it waits
  and calls \<open>this.get\<close> again (address, error message, delay in milliseconds), it returns
  \<open>null\<close>, or it returns \<open>response.json()\<close>.
\<close>

datatype 'j outcome = Throw string | RetryGet string string nat | ReturnNull | ReturnJson "'j option"

definition maxRetries :: nat where
  "maxRetries = 2"

record 'j api =
  baseURL :: string
  basePath :: string
  extractErrorMessage :: "'j \<Rightarrow> int \<Rightarrow> string"
  emptyObject :: 'j

definition handleResponse ::
    "'j api \<Rightarrow> auth \<Rightarrow> 'j response \<Rightarrow> string \<Rightarrow> nat \<Rightarrow> page \<Rightarrow> 'j outcome \<times> page" where
  "handleResponse svc a r errorMessage retryCount p =
     (if \<not> ok r then
        (case handleAuthError a r p of
           (redirecting, p') \<Rightarrow>
             if redirecting then (Throw ''Authentication failed - redirecting to login'', p')
             else if status r = 401 \<and> js_includes (url r) ''/admin/'' \<and> retryCount < maxRetries
             then (RetryGet (js_replace (url r) (baseURL svc @ basePath svc) []) errorMessage
                     (200 + retryCount * 100), p')
             else if status r = 429
             then (let retryAfter =
                         (case retryAfterHeader r of
                            None \<Rightarrow> ''60''
                          | Some v \<Rightarrow> if v = [] then ''60'' else v)
                   in (Throw (''Rate limit exceeded. Please wait '' @ retryAfter @
                              '' seconds before trying again.''), p'))
             else (let error = (case json r of None \<Rightarrow> emptyObject svc | Some j \<Rightarrow> j)
                   in (Throw (extractErrorMessage svc error (status r)), p')))
      else if status r = 204 then (ReturnNull, p)
      else (ReturnJson (json r), p))"

text \<open>The message the rate-limit error carries for a waiting time \<open>n\<close>.\<close>

definition rateLimitMessage :: "string \<Rightarrow> string" where
  "rateLimitMessage n = ''Rate limit exceeded. Please wait '' @ n @ '' seconds before trying again.''"

section \<open>Abort signals (\<open>BaseApiService\<close> and \<open>ApiService\<close>)\<close>

text \<open>
  The second argument of \<open>fetch\<close>: method, abort signal and body. The headers are left out;
  neither service derives them from the signal. An absent property is \<open>None\<close>.
\<close>

record ('sig, 'd) requestInit =
  initMethod :: "string option"
  initSignal :: "'sig option"
  initBody :: "'d option"

text \<open>The options object a caller passes: query parameters, abort signal, error message.\<close>

record 'sig options =
  optParams :: "(string \<times> string) list option"
  optSignal :: "'sig option"
  optErrorMessage :: "string option"

text \<open>
  JavaScript does not check what a caller passes in the last position of a method of
  \<open>BaseApiService\<close>: nothing, a string, or an options object.
\<close>

datatype 'sig argument = Omitted | StringArg string | OptionsArg "'sig options"

datatype httpMethod = GET | POST | PUT | PATCH | DELETE

text \<open>
  \<open>BaseApiService.get(endpoint, options = {})\<close> destructures \<open>params\<close> and \<open>signal\<close> from its
  options (a string has neither) and calls \<open>fetch(url, { headers, signal })\<close>.
  \<open>toQueryString\<close> is \<open>new URLSearchParams(params).toString()\<close>.
\<close>

definition argSignal :: "'sig argument \<Rightarrow> 'sig option" where
  "argSignal a = (case a of OptionsArg opts \<Rightarrow> optSignal opts | _ \<Rightarrow> None)"

definition argParams :: "'sig argument \<Rightarrow> (string \<times> string) list option" where
  "argParams a = (case a of OptionsArg opts \<Rightarrow> optParams opts | _ \<Rightarrow> None)"

definition baseGet :: "'j api \<Rightarrow> ((string \<times> string) list \<Rightarrow> string) \<Rightarrow> string \<Rightarrow>
    'sig argument \<Rightarrow> string \<times> ('sig, 'd) requestInit" where
  "baseGet svc toQueryString endpoint options =
     (let params = argParams options;
          signal = argSignal options;
          url = baseURL svc @ basePath svc @ endpoint;
          url = (case params of
                   None \<Rightarrow> url
                 | Some ps \<Rightarrow> if length ps > 0 then url @ ''?'' @ toQueryString ps else url)
      in (url, \<lparr>initMethod = None, initSignal = signal, initBody = None\<rparr>))"

text \<open>
  \<open>post\<close>, \<open>put\<close> and \<open>patch\<close> take \<open>(endpoint, data, errorMessage)\<close> and \<open>delete\<close> takes
  \<open>(endpoint, errorMessage)\<close>; the object they give to \<open>fetch\<close> has a method, headers and,
  except for \<open>delete\<close>, a body. The last argument is used as the error message only.
\<close>

definition basePost :: "'j api \<Rightarrow> string \<Rightarrow> 'd \<Rightarrow> 'sig argument \<Rightarrow>
    string \<times> ('sig, 'd) requestInit" where
  "basePost svc endpoint data errorMessage =
     (baseURL svc @ basePath svc @ endpoint,
      \<lparr>initMethod = Some ''POST'', initSignal = None, initBody = Some data\<rparr>)"

definition basePut :: "'j api \<Rightarrow> string \<Rightarrow> 'd \<Rightarrow> 'sig argument \<Rightarrow>
    string \<times> ('sig, 'd) requestInit" where
  "basePut svc endpoint data errorMessage =
     (baseURL svc @ basePath svc @ endpoint,
      \<lparr>initMethod = Some ''PUT'', initSignal = None, initBody = Some data\<rparr>)"

definition basePatch :: "'j api \<Rightarrow> string \<Rightarrow> 'd \<Rightarrow> 'sig argument \<Rightarrow>
    string \<times> ('sig, 'd) requestInit" where
  "basePatch svc endpoint data errorMessage =
     (baseURL svc @ basePath svc @ endpoint,
      \<lparr>initMethod = Some ''PATCH'', initSignal = None, initBody = Some data\<rparr>)"

definition baseDelete :: "'j api \<Rightarrow> string \<Rightarrow> 'sig argument \<Rightarrow>
    string \<times> ('sig, 'd) requestInit" where
  "baseDelete svc endpoint errorMessage =
     (baseURL svc @ basePath svc @ endpoint,
      \<lparr>initMethod = Some ''DELETE'', initSignal = None, initBody = None\<rparr>)"

text \<open>The \<open>fetch\<close> call of the method of \<open>BaseApiService\<close> for each HTTP method.\<close>

fun baseFetch :: "httpMethod \<Rightarrow> 'j api \<Rightarrow> ((string \<times> string) list \<Rightarrow> string) \<Rightarrow> string \<Rightarrow>
    'd \<Rightarrow> 'sig argument \<Rightarrow> string \<times> ('sig, 'd) requestInit" where
  "baseFetch GET svc toQueryString endpoint data lastArg = baseGet svc toQueryString endpoint lastArg"
| "baseFetch POST svc toQueryString endpoint data lastArg = basePost svc endpoint data lastArg"
| "baseFetch PUT svc toQueryString endpoint data lastArg = basePut svc endpoint data lastArg"
| "baseFetch PATCH svc toQueryString endpoint data lastArg = basePatch svc endpoint data lastArg"
| "baseFetch DELETE svc toQueryString endpoint data lastArg = baseDelete svc endpoint lastArg"

text \<open>
  \<open>ApiService.request(method, url, data, options)\<close>, with \<open>path\<close> for the address it is
  given. The data is a \<open>FormData\<close>, a
  \<open>URLSearchParams\<close>, another truthy value (sent as JSON) or falsy (no body). The same
  \<open>config\<close> is given to \<open>fetch\<close> for the base address and, when that call throws, for the
  fallback address; the result lists the two calls in this order.
\<close>

datatype 'd payload = NoData | FormData 'd | UrlEncoded 'd | JsonData 'd

definition methodName :: "httpMethod \<Rightarrow> string" where
  "methodName m = (case m of GET \<Rightarrow> ''GET'' | POST \<Rightarrow> ''POST'' | PUT \<Rightarrow> ''PUT''
                   | PATCH \<Rightarrow> ''PATCH'' | DELETE \<Rightarrow> ''DELETE'')"

definition request :: "string \<Rightarrow> string \<Rightarrow> ((string \<times> string) list \<Rightarrow> string) \<Rightarrow> string \<Rightarrow>
    string \<Rightarrow> 'd payload \<Rightarrow> 'sig options \<Rightarrow> (string \<times> ('sig, 'd) requestInit) list" where
  "request apiBase fallbackURL toQueryString method path data options =
     (let signal = optSignal options;
          params = optParams options;
          url = (case params of
                   None \<Rightarrow> path
                 | Some ps \<Rightarrow> if length ps > 0 then path @ ''?'' @ toQueryString ps else path);
          config = \<lparr>initMethod = Some method, initSignal = signal,
                    initBody = (case data of NoData \<Rightarrow> None | FormData d \<Rightarrow> Some d
                                | UrlEncoded d \<Rightarrow> Some d | JsonData d \<Rightarrow> Some d)\<rparr>
      in [(apiBase @ url, config), (fallbackURL @ url, config)])"

text \<open>
  \<open>get\<close> and \<open>delete\<close> of \<open>ApiService\<close> pass \<open>null\<close> as data, \<open>post\<close>, \<open>put\<close> and \<open>patch\<close>
  pass their data on.
\<close>

fun apiFetch :: "httpMethod \<Rightarrow> string \<Rightarrow> string \<Rightarrow> ((string \<times> string) list \<Rightarrow> string) \<Rightarrow>
    string \<Rightarrow> 'd payload \<Rightarrow> 'sig options \<Rightarrow> (string \<times> ('sig, 'd) requestInit) list" where
  "apiFetch GET apiBase fallbackURL toQueryString endpoint data options =
     request apiBase fallbackURL toQueryString ''GET'' endpoint NoData options"
| "apiFetch POST apiBase fallbackURL toQueryString endpoint data options =
     request apiBase fallbackURL toQueryString ''POST'' endpoint data options"
| "apiFetch PUT apiBase fallbackURL toQueryString endpoint data options =
     request apiBase fallbackURL toQueryString ''PUT'' endpoint data options"
| "apiFetch PATCH apiBase fallbackURL toQueryString endpoint data options =
     request apiBase fallbackURL toQueryString ''PATCH'' endpoint data options"
| "apiFetch DELETE apiBase fallbackURL toQueryString endpoint data options =
     request apiBase fallbackURL toQueryString ''DELETE'' endpoint NoData options"

section \<open>Paginated search (\<open>SearchService.searchWithPagination\<close>)\<close>

text \<open>
  An exception is a value: a \<open>TypeError\<close> raised by the language (a property read on \<open>null\<close>
  or \<open>undefined\<close>, a call of something that is not a function), or the error with which the
  GET request of \<open>apiService\<close> rejects.
\<close>

datatype failure = TypeError | RequestError string

record pageInfo =
  skip :: int
  limit :: int
  hasMore :: bool

text \<open>
  The response of the back end: per record type an object with an \<open>items\<close> array. Each of
  them can be \<open>null\<close> or missing, which is \<open>None\<close>; \<open>data_results\<close>, \<open>data_total_count\<close> and
  \<open>data_pagination\<close> are the properties \<open>results\<close>, \<open>total_count\<close> and \<open>pagination\<close> of the
  response.
\<close>

record 'item typeResults =
  items :: "'item option list option"

record 'item searchData =
  data_results :: "(string \<times> 'item typeResults option) list option"
  data_total_count :: "int option"
  data_pagination :: "pageInfo option"

record ('row, 'item) searchOutcome =
  results :: "'row list"
  totalCount :: int
  pagination :: pageInfo
  resultsByType :: "(string \<times> 'item typeResults option) list option"

text \<open>
  \<open>formatResultItem\<close> reads \<open>item.type\<close> first, which throws when the item is \<open>null\<close>; its
  \<open>switch\<close> builds a row for the nine record types it knows (\<open>render\<close> stands for the object
  literals of the cases) and returns \<open>null\<close> for any other.
\<close>

definition knownRecordTypes :: "string list" where
  "knownRecordTypes =
     [''medications'', ''conditions'', ''lab_results'', ''procedures'', ''immunizations'',
      ''treatments'', ''encounters'', ''allergies'', ''vitals'']"

definition formatResultItem :: "(string \<Rightarrow> 'item \<Rightarrow> 'row) \<Rightarrow> string \<Rightarrow> 'item option \<Rightarrow>
    failure + 'row option" where
  "formatResultItem render recordType item =
     (case item of
        None \<Rightarrow> Inl TypeError
      | Some it \<Rightarrow>
          if recordType \<in> set knownRecordTypes then Inr (Some (render recordType it))
          else Inr None)"

text \<open>The inner \<open>forEach\<close> of \<open>formatSearchResults\<close>, pushing onto \<open>matchedResults\<close>.\<close>

fun formatItems :: "(string \<Rightarrow> 'item \<Rightarrow> 'row) \<Rightarrow> string \<Rightarrow> 'item option list \<Rightarrow> 'row list \<Rightarrow>
    failure + 'row list" where
  "formatItems render recordType [] matchedResults = Inr matchedResults"
| "formatItems render recordType (item # rest) matchedResults =
     (case formatResultItem render recordType item of
        Inl e \<Rightarrow> Inl e
      | Inr None \<Rightarrow> formatItems render recordType rest matchedResults
      | Inr (Some formattedItem) \<Rightarrow>
          formatItems render recordType rest (matchedResults @ [formattedItem]))"

text \<open>
  The outer \<open>forEach\<close> over \<open>Object.entries(results)\<close>: reading \<open>typeResults.items\<close> throws when
  \<open>typeResults\<close> is \<open>null\<close>; a record type without items is skipped.
\<close>

fun formatEntries :: "(string \<Rightarrow> 'item \<Rightarrow> 'row) \<Rightarrow> (string \<times> 'item typeResults option) list \<Rightarrow>
    'row list \<Rightarrow> failure + 'row list" where
  "formatEntries render [] matchedResults = Inr matchedResults"
| "formatEntries render ((recordType, typeResults) # rest) matchedResults =
     (case typeResults of
        None \<Rightarrow> Inl TypeError
      | Some tr \<Rightarrow>
          (case items tr of
             None \<Rightarrow> formatEntries render rest matchedResults
           | Some its \<Rightarrow>
               if length its = 0 then formatEntries render rest matchedResults
               else (case formatItems render recordType its matchedResults of
                       Inl e \<Rightarrow> Inl e
                     | Inr matched \<Rightarrow> formatEntries render rest matched)))"

definition formatSearchResults :: "(string \<Rightarrow> 'item \<Rightarrow> 'row) \<Rightarrow>
    (string \<times> 'item typeResults option) list \<Rightarrow> failure + 'row list" where
  "formatSearchResults render res = formatEntries render res []"

text \<open>
  \<open>query && query.trim().length > 0\<close>: false for a falsy query, a \<open>TypeError\<close> for a truthy
  value that is not a string (it has no \<open>trim\<close>).
\<close>

definition hasQuery :: "jsval \<Rightarrow> failure + bool" where
  "hasQuery q =
     (case q of
        JStr s \<Rightarrow> Inr (s \<noteq> [] \<and> length (js_trim s) > 0)
      | _ \<Rightarrow> if truthy q then Inl TypeError else Inr False)"

text \<open>The query parameters: the pagination options, then \<open>q\<close> and \<open>patient_id\<close>.\<close>

definition searchParams :: "jsval \<Rightarrow> jsval \<Rightarrow> (string \<times> jsval) list \<Rightarrow> (string \<times> jsval) list" where
  "searchParams q patientId paginationOptions =
     (let params = paginationOptions;
          params = (if hasQuery q = Inr True then AList.update ''q'' q params else params);
          params = (if truthy patientId then AList.update ''patient_id'' patientId params
                    else params)
      in params)"

definition defaultPagination :: pageInfo where
  "defaultPagination = \<lparr>skip = 0, limit = 20, hasMore = False\<rparr>"

text \<open>
  The body of the \<open>try\<close> block; \<open>apiGet\<close> is \<open>apiService.get\<close>, resolving with the response
  (which may be \<open>null\<close>) or rejecting.
\<close>

definition searchBody :: "(string \<Rightarrow> 'item \<Rightarrow> 'row) \<Rightarrow>
    (string \<Rightarrow> (string \<times> jsval) list \<Rightarrow> failure + 'item searchData option) \<Rightarrow>
    jsval \<Rightarrow> jsval \<Rightarrow> (string \<times> jsval) list \<Rightarrow> failure + ('row, 'item) searchOutcome" where
  "searchBody render apiGet q patientId paginationOptions =
     (case hasQuery q of
        Inl e \<Rightarrow> Inl e
      | Inr _ \<Rightarrow>
          (case apiGet ''/search/'' (searchParams q patientId paginationOptions) of
             Inl e \<Rightarrow> Inl e
           | Inr response \<Rightarrow>
               (let byType = (case response of
                                None \<Rightarrow> []
                              | Some sd \<Rightarrow> (case data_results sd of None \<Rightarrow> [] | Some r \<Rightarrow> r))
                in case formatSearchResults render byType of
                     Inl e \<Rightarrow> Inl e
                   | Inr formattedResults \<Rightarrow>
                       Inr \<lparr>results = formattedResults,
                            totalCount =
                              (case response of
                                 None \<Rightarrow> 0
                               | Some sd \<Rightarrow> (case data_total_count sd of None \<Rightarrow> 0 | Some n \<Rightarrow> n)),
                            pagination =
                              (case response of
                                 None \<Rightarrow> defaultPagination
                               | Some sd \<Rightarrow>
                                   (case data_pagination sd of
                                      None \<Rightarrow> defaultPagination
                                    | Some p \<Rightarrow> p)),
                            resultsByType = Some byType\<rparr>)))"

text \<open>
  \<open>searchWithPagination\<close>: \<open>Inl\<close> would be a rejected promise. The \<open>catch\<close> block logs the
  message of the error and returns the empty result.
\<close>

definition emptySearch :: "('row, 'item) searchOutcome" where
  "emptySearch =
     \<lparr>results = [], totalCount = 0, pagination = \<lparr>skip = 0, limit = 20, hasMore = False\<rparr>,
      resultsByType = None\<rparr>"

definition searchWithPagination :: "(string \<Rightarrow> 'item \<Rightarrow> 'row) \<Rightarrow>
    (string \<Rightarrow> (string \<times> jsval) list \<Rightarrow> failure + 'item searchData option) \<Rightarrow>
    jsval \<Rightarrow> jsval \<Rightarrow> (string \<times> jsval) list \<Rightarrow> failure + ('row, 'item) searchOutcome" where
  "searchWithPagination render apiGet q patientId paginationOptions =
     (if \<not> truthy patientId then Inr emptySearch
      else (case searchBody render apiGet q patientId paginationOptions of
              Inr found \<Rightarrow> Inr found
            | Inl error \<Rightarrow> Inr emptySearch))"

section \<open>Creating a medication (\<open>ApiService.createMedication\<close>)\<close>

text \<open>
  An object is the list of its properties in the order of \<open>Object.keys\<close>; reading a property
  that is absent gives \<open>undefined\<close>.
\<close>

definition js_get :: "(string \<times> jsval) list \<Rightarrow> string \<Rightarrow> jsval" where
  "js_get obj key = (case map_of obj key of None \<Rightarrow> JUndefined | Some v \<Rightarrow> v)"

text \<open>\<open>value !== '' && value !== null && value !== undefined\<close>.\<close>

definition kept :: "jsval \<Rightarrow> bool" where
  "kept v = (v \<noteq> JStr [] \<and> v \<noteq> JNull \<and> v \<noteq> JUndefined)"

definition cleanPayload :: "(string \<times> jsval) list \<Rightarrow> (string \<times> jsval) list" where
  "cleanPayload medicationData =
     fold (\<lambda>key acc. let v = js_get medicationData key
                     in if kept v then AList.update key v acc else acc)
          (map fst medicationData) []"

text \<open>
  The result is the error thrown, or the call \<open>this.post('/medications/', cleanPayload,
  { signal })\<close>: address, payload and signal.
\<close>

definition createMedication :: "(string \<times> jsval) list \<Rightarrow> 'sig option \<Rightarrow>
    string + (string \<times> (string \<times> jsval) list \<times> 'sig option)" where
  "createMedication medicationData signal =
     (let payload = cleanPayload medicationData
      in if \<not> truthy (js_get payload ''medication_name'')
         then Inl ''Medication name is required''
         else Inr (''/medications/'', payload, signal))"

section \<open>Search results page (\<open>SearchResults\<close>)\<close>

text \<open>
  A row of the page, with the fields the pipeline reads. A title or subtitle that is
  \<open>undefined\<close> or \<open>null\<close> is \<open>None\<close>, and so is a date that is missing; an empty date string
  is falsy as well.
\<close>

record row =
  rowType :: string
  rowId :: int
  title :: "string option"
  subtitle :: "string option"
  date :: "string option"

text \<open>
  \<open>results.map(result => ({ type: result.type, id: result.id, title: result.title, ... }))\<close>:
  the fields read here are copied from the search result.
\<close>

definition textRow :: "row \<Rightarrow> row" where
  "textRow result =
     \<lparr>rowType = rowType result, rowId = rowId result, title = title result,
      subtitle = subtitle result, date = date result\<rparr>"

text \<open>
  The comparison function given to \<open>sort\<close> returns a number, \<open>None\<close> for \<open>NaN\<close>; \<open>sort\<close> takes
  \<open>NaN\<close> as 0.
\<close>

definition sortCompare :: "('a \<Rightarrow> 'a \<Rightarrow> int option) \<Rightarrow> 'a \<Rightarrow> 'a \<Rightarrow> int" where
  "sortCompare cmp a b = (case cmp a b of None \<Rightarrow> 0 | Some v \<Rightarrow> v)"

text \<open>
  A comparison function is consistent on a set of values when it never returns \<open>NaN\<close> there,
  one value is before another exactly when the other is after it, and being not after is
  transitive. These conditions give the ones the language asks of a consistent comparison
  function.
\<close>

definition consistentOn :: "'a set \<Rightarrow> ('a \<Rightarrow> 'a \<Rightarrow> int option) \<Rightarrow> bool" where
  "consistentOn S cmp =
     ((\<forall>a\<in>S. \<forall>b\<in>S. cmp a b \<noteq> None) \<and>
      (\<forall>a\<in>S. \<forall>b\<in>S. (sortCompare cmp a b < 0) = (sortCompare cmp b a > 0)) \<and>
      (\<forall>a\<in>S. \<forall>b\<in>S. \<forall>c\<in>S.
         sortCompare cmp a b \<le> 0 \<and> sortCompare cmp b c \<le> 0 \<longrightarrow> sortCompare cmp a c \<le> 0))"

text \<open>
  \<open>Array.prototype.sort\<close> as the language specifies it. The result is a rearrangement of
  the array. When the comparison function is consistent on the elements, the result is in
  the order of the comparison and elements that compare equal keep their order (the sort
  is stable); otherwise the order is left to the engine.
\<close>

definition arraySort :: "(('a \<Rightarrow> 'a \<Rightarrow> int option) \<Rightarrow> 'a list \<Rightarrow> 'a list) \<Rightarrow> bool" where
  "arraySort srt =
     (\<forall>cmp xs.
        mset (srt cmp xs) = mset xs \<and>
        (consistentOn (set xs) cmp \<longrightarrow>
           sorted_wrt (\<lambda>a b. sortCompare cmp a b \<le> 0) (srt cmp xs) \<and>
           (\<forall>a\<in>set xs. filter (\<lambda>b. sortCompare cmp a b = 0) (srt cmp xs)
                          = filter (\<lambda>b. sortCompare cmp a b = 0) xs)))"

text \<open>A stable sort by insertion, one function that sorts as the language specifies.\<close>

fun insertRow :: "('a \<Rightarrow> 'a \<Rightarrow> int option) \<Rightarrow> 'a \<Rightarrow> 'a list \<Rightarrow> 'a list" where
  "insertRow cmp x [] = [x]"
| "insertRow cmp x (y # ys) =
     (if sortCompare cmp x y \<le> 0 then x # y # ys else y # insertRow cmp x ys)"

definition stableSort :: "('a \<Rightarrow> 'a \<Rightarrow> int option) \<Rightarrow> 'a list \<Rightarrow> 'a list" where
  "stableSort cmp xs = foldr (insertRow cmp) xs []"

text \<open>
  What the page takes from the browser: \<open>String.prototype.toLowerCase\<close>, \<open>new Date(string)\<close>
  (the time value of the date, \<open>None\<close> for an invalid date),
  \<open>String.prototype.localeCompare\<close> and \<open>Array.prototype.sort\<close>.
\<close>

record engine =
  toLowerCase :: "string \<Rightarrow> string"
  parseDate :: "string \<Rightarrow> int option"
  localeCompare :: "string \<Rightarrow> string \<Rightarrow> int"
  sortRows :: "(row \<Rightarrow> row \<Rightarrow> int option) \<Rightarrow> row list \<Rightarrow> row list"

text \<open>\<open>r.title?.toLowerCase().includes(q)\<close>: \<open>undefined\<close>, so falsy, without a title.\<close>

definition fieldIncludes :: "engine \<Rightarrow> string option \<Rightarrow> string \<Rightarrow> bool" where
  "fieldIncludes en field q =
     (case field of None \<Rightarrow> False | Some s \<Rightarrow> js_includes (toLowerCase en s) q)"

text \<open>
  The rows that go on: the text rows when no tag is selected, the tag rows when a tag is
  selected and the query is blank, and otherwise the tag rows whose lower-cased title or
  subtitle contains the trimmed, lower-cased query. \<open>tagRows\<close> is
  \<open>flattenTagResults(tagResults, t)\<close>.
\<close>

definition selectRows :: "engine \<Rightarrow> string list \<Rightarrow> string \<Rightarrow> row list \<Rightarrow> row list \<Rightarrow> row list" where
  "selectRows en selectedTags q textRows tagRows =
     (let hasTagFilter = (length selectedTags > 0)
      in if \<not> hasTagFilter then textRows
         else if q = [] \<or> js_trim q = [] then tagRows
         else (let ql = toLowerCase en (js_trim q)
               in filter (\<lambda>r. fieldIncludes en (title r) ql \<or> fieldIncludes en (subtitle r) ql)
                    tagRows))"

text \<open>
  A \<open>Date\<close> object is its time value, \<open>None\<close> for an invalid date. A comparison with an
  invalid date is false.
\<close>

definition dateBefore :: "int option \<Rightarrow> int option \<Rightarrow> bool" where
  "dateBefore a b = (case a of None \<Rightarrow> False | Some x \<Rightarrow> (case b of None \<Rightarrow> False | Some y \<Rightarrow> x < y))"

definition hasDate :: "row \<Rightarrow> bool" where
  "hasDate r = (case date r of None \<Rightarrow> False | Some d \<Rightarrow> d \<noteq> [])"

definition rowDate :: "engine \<Rightarrow> row \<Rightarrow> int option" where
  "rowDate en r = (case date r of None \<Rightarrow> None | Some d \<Rightarrow> parseDate en d)"

text \<open>
  The date range is a pair of \<open>Date\<close> objects or \<open>null\<close>. The filter runs when one of the two is
  not \<open>null\<close>; it drops a row without a date, a row dated before the first and a row dated
  after the second.
\<close>

definition inDateRange :: "engine \<Rightarrow> int option option \<times> int option option \<Rightarrow> row \<Rightarrow> bool" where
  "inDateRange en dateRange r =
     (if \<not> hasDate r then False
      else (let itemDate = rowDate en r
            in if (case fst dateRange of None \<Rightarrow> False | Some lo \<Rightarrow> dateBefore itemDate lo)
               then False
               else if (case snd dateRange of None \<Rightarrow> False | Some hi \<Rightarrow> dateBefore hi itemDate)
               then False
               else True))"

definition dateFiltered :: "engine \<Rightarrow> int option option \<times> int option option \<Rightarrow>
    row list \<Rightarrow> row list" where
  "dateFiltered en dateRange merged =
     (if fst dateRange \<noteq> None \<or> snd dateRange \<noteq> None
      then filter (inDateRange en dateRange) merged
      else merged)"

text \<open>
  The comparison function of the page. The difference of two dates is \<open>NaN\<close> when one of
  them is invalid.
\<close>

definition dateDiff :: "int option \<Rightarrow> int option \<Rightarrow> int option" where
  "dateDiff a b = (case a of None \<Rightarrow> None | Some x \<Rightarrow> (case b of None \<Rightarrow> None | Some y \<Rightarrow> Some (x - y)))"

definition titleKey :: "engine \<Rightarrow> row \<Rightarrow> string" where
  "titleKey en r = toLowerCase en (case title r of None \<Rightarrow> [] | Some s \<Rightarrow> s)"

definition compareRows :: "engine \<Rightarrow> string \<Rightarrow> row \<Rightarrow> row \<Rightarrow> int option" where
  "compareRows en sortBy a b =
     (if sortBy = ''date_desc'' then
        (if \<not> hasDate a \<and> \<not> hasDate b then Some 0
         else if \<not> hasDate a then Some 1
         else if \<not> hasDate b then Some (- 1)
         else dateDiff (rowDate en b) (rowDate en a))
      else if sortBy = ''date_asc'' then
        (if \<not> hasDate a \<and> \<not> hasDate b then Some 0
         else if \<not> hasDate a then Some 1
         else if \<not> hasDate b then Some (- 1)
         else dateDiff (rowDate en a) (rowDate en b))
      else if sortBy = ''title'' then Some (localeCompare en (titleKey en a) (titleKey en b))
      else if sortBy = ''title_desc'' then Some (localeCompare en (titleKey en b) (titleKey en a))
      else Some 0)"

text \<open>
  \<open>Array.prototype.slice(start, stop)\<close> on integers: a negative index counts from the end,
  and both are clamped to the array.
\<close>

definition js_slice :: "'a list \<Rightarrow> int \<Rightarrow> int \<Rightarrow> 'a list" where
  "js_slice xs start stop =
     (let len = int (length xs);
          k = (if start < 0 then max (len + start) 0 else min start len);
          final = (if stop < 0 then max (len + stop) 0 else min stop len)
      in take (nat (final - k)) (drop (nat k) xs))"

definition allFilteredResults :: "engine \<Rightarrow> row list \<Rightarrow> row list \<Rightarrow> string list \<Rightarrow> string \<Rightarrow>
    string \<Rightarrow> int option option \<times> int option option \<Rightarrow> row list" where
  "allFilteredResults en searchResults tagRows selectedTags q sortBy dateRange =
     (let textRows = map textRow searchResults;
          merged = selectRows en selectedTags q textRows tagRows;
          filtered = dateFiltered en dateRange merged
      in sortRows en (compareRows en sortBy) filtered)"

text \<open>
  The page of rows on display. The page size is one of 10, 20 and 50: the value taken from
  the address is checked against these options, and the selector offers no other.
\<close>

definition mergedResults :: "engine \<Rightarrow> row list \<Rightarrow> row list \<Rightarrow> string list \<Rightarrow> string \<Rightarrow>
    string \<Rightarrow> int option option \<times> int option option \<Rightarrow> int \<Rightarrow> nat \<Rightarrow> row list" where
  "mergedResults en searchResults tagRows selectedTags q sortBy dateRange currentPage pageSize =
     (let start = (currentPage - 1) * int pageSize
      in js_slice (allFilteredResults en searchResults tagRows selectedTags q sortBy dateRange)
           start (start + int pageSize))"

text \<open>
  The pipeline in the words of the specification: the text-search and tag-search rows are
  merged into one array, which is date filtered, sorted and cut to the page.
\<close>

definition specDisplayedRows :: "engine \<Rightarrow> row list \<Rightarrow> row list \<Rightarrow> string \<Rightarrow>
    int option option \<times> int option option \<Rightarrow> nat \<Rightarrow> nat \<Rightarrow> row list" where
  "specDisplayedRows en searchResults tagRows sortBy dateRange currentPage pageSize =
     take pageSize (drop ((currentPage - 1) * pageSize)
       (sortRows en (compareRows en sortBy)
          (dateFiltered en dateRange (map textRow searchResults @ tagRows))))"

text \<open>
  The date filter in the words of the specification: without a range every row is kept;
  with one, a row is kept when it has a date that is neither before a valid start of the
  range nor after a valid end (a date that does not parse is neither).
\<close>

definition withinDateRange :: "engine \<Rightarrow> int option option \<times> int option option \<Rightarrow> row \<Rightarrow> bool" where
  "withinDateRange en dateRange r =
     (case dateRange of
        (None, None) \<Rightarrow> True
      | (lo, hi) \<Rightarrow>
          (case date r of
             None \<Rightarrow> False
           | Some d \<Rightarrow>
               d \<noteq> [] \<and>
               (case (lo, parseDate en d) of (Some (Some l), Some t) \<Rightarrow> l \<le> t | _ \<Rightarrow> True) \<and>
               (case (hi, parseDate en d) of (Some (Some h), Some t) \<Rightarrow> t \<le> h | _ \<Rightarrow> True)))"

text \<open>
  The two orders by date in the words of the specification: a row with a date stands
  before a row without one, and of two dated rows the later date (newest first) or the
  earlier date (oldest first) stands first.
\<close>

definition newerFirst :: "engine \<Rightarrow> row \<Rightarrow> row \<Rightarrow> bool" where
  "newerFirst en a b =
     (if hasDate a \<and> hasDate b
      then (case (rowDate en a, rowDate en b) of (Some ta, Some tb) \<Rightarrow> tb \<le> ta | _ \<Rightarrow> True)
      else hasDate a \<or> \<not> hasDate b)"

definition olderFirst :: "engine \<Rightarrow> row \<Rightarrow> row \<Rightarrow> bool" where
  "olderFirst en a b =
     (if hasDate a \<and> hasDate b
      then (case (rowDate en a, rowDate en b) of (Some ta, Some tb) \<Rightarrow> ta \<le> tb | _ \<Rightarrow> True)
      else hasDate a \<or> \<not> hasDate b)"

text \<open>Every row with a date has a date that parses.\<close>

definition datesParse :: "engine \<Rightarrow> row list \<Rightarrow> bool" where
  "datesParse en rows = list_all (\<lambda>r. \<not> hasDate r \<or> rowDate en r \<noteq> None) rows"

text \<open>
  An engine for the examples, whose strings are ASCII: \<open>toLowerCase\<close> on ASCII characters,
  the time values of the two dates of the examples, \<open>localeCompare\<close> as it orders strings of
  lower-case ASCII letters, and the stable sort by insertion.
\<close>

definition asciiLower :: "string \<Rightarrow> string" where
  "asciiLower s =
     map (\<lambda>c. if CHR ''A'' \<le> c \<and> c \<le> CHR ''Z'' then char_of (of_char c + (32::nat)) else c) s"

definition codePointCompare :: "string \<Rightarrow> string \<Rightarrow> int" where
  "codePointCompare s t = (if s < t then - 1 else if t < s then 1 else 0)"

definition exampleEngine :: engine where
  "exampleEngine =
     \<lparr>toLowerCase = asciiLower,
      parseDate = (\<lambda>s. if s = ''2024-01-05'' then Some 1704412800000
                        else if s = ''2024-03-01'' then Some 1709251200000 else None),
      localeCompare = codePointCompare,
      sortRows = stableSort\<rparr>"

section \<open>Verified properties\<close>

subsection \<open>Search history\<close>


















subsection \<open>Request queue\<close>

lemma queueInv_initial: "queueInv initialService"
  by (simp add: queueInv_def queueCore_def initialService_def)

lemma queueInv_loopHead:
  assumes "isProcessingQueue s" "awaitingRequest s = []" "awaitingDelay s = 0"
    "activeRequests s = 0" "enqueuedLog s = startedLog s @ requestQueue s"
  shows "queueInv (loopHead s)"
  using assms
  by (cases "requestQueue s") (simp_all add: queueInv_def queueCore_def loopHead_def maxConcurrentRequests_def)

lemma queueInv_processQueue:
  assumes "queueCore s" shows "queueInv (processQueue s)"
proof (cases "isProcessingQueue s \<or> activeRequests s \<ge> maxConcurrentRequests")
  case True
  have "activeRequests s \<le> 1"
    using assms by (simp add: queueCore_def)
  then have "isProcessingQueue s"
    using True by (simp add: maxConcurrentRequests_def)
  then show ?thesis using assms True by (simp add: processQueue_def queueInv_def)
next
  case False
  then have "length (awaitingRequest s) + awaitingDelay s = 0"
    using assms unfolding queueCore_def by linarith
  then have idle: "awaitingRequest s = []" "awaitingDelay s = 0" "activeRequests s = 0"
    using assms by (simp_all add: queueCore_def)
  have "queueInv (loopHead (s\<lparr>isProcessingQueue := True\<rparr>))"
    using idle assms by (intro queueInv_loopHead) (simp_all add: queueCore_def)
  then show ?thesis using False by (simp add: processQueue_def)
qed

lemma queueInv_step:
  assumes "queueInv s" shows "queueInv (step ev s)"
proof (cases ev)
  case (QueueRequest r)
  have "queueCore (s\<lparr>requestQueue := requestQueue s @ [r], enqueuedLog := enqueuedLog s @ [r]\<rparr>)"
    using assms by (simp add: queueInv_def queueCore_def)
  then show ?thesis using QueueRequest by (simp add: queueRequest_def queueInv_processQueue)
next
  case (RequestSettled i)
  show ?thesis
  proof (cases "i < length (awaitingRequest s)")
    case True
    then have one: "length (awaitingRequest s) = 1 \<and> i = 0 \<and> awaitingDelay s = 0"
      using assms unfolding queueInv_def queueCore_def by linarith
    then have "isProcessingQueue s"
      using assms by (simp add: queueInv_def queueCore_def)
    then show ?thesis using one assms RequestSettled by (simp add: queueInv_def queueCore_def)
  next
    case False
    then show ?thesis using assms RequestSettled by simp
  qed
next
  case DelayElapsed
  show ?thesis
  proof (cases "awaitingDelay s > 0")
    case True
    then have "length (awaitingRequest s) = 0 \<and> awaitingDelay s = 1"
      using assms unfolding queueInv_def queueCore_def by linarith
    then have st: "awaitingDelay s = 1" "awaitingRequest s = []" "isProcessingQueue s"
      "activeRequests s = 0" "enqueuedLog s = startedLog s @ requestQueue s"
      using assms by (simp_all add: queueInv_def queueCore_def)
    have "queueInv (loopHead (s\<lparr>awaitingDelay := awaitingDelay s - 1\<rparr>))"
      using st by (intro queueInv_loopHead) simp_all
    then show ?thesis using True DelayElapsed by simp
  next
    case False
    then show ?thesis using assms DelayElapsed by simp
  qed
next
  case TimerFired
  show ?thesis
  proof (cases "pendingTimers s > 0")
    case True
    have "queueCore (s\<lparr>pendingTimers := pendingTimers s - 1\<rparr>)"
      using assms by (simp add: queueInv_def queueCore_def)
    then show ?thesis using True TimerFired by (simp add: queueInv_processQueue)
  next
    case False
    then show ?thesis using assms TimerFired by simp
  qed
qed

lemma queueInv_fold: "queueInv s \<Longrightarrow> queueInv (fold step evs s)"
  by (induction evs arbitrary: s) (simp_all add: queueInv_step)

lemma queueInv_run: "queueInv (run evs initialService)"
  unfolding run_def by (rule queueInv_fold [OF queueInv_initial])

text \<open>
  Claim C1. After every sequence of events of the queue (requests enqueued, requests
  settling, delays ending, timers firing), \<open>activeRequests\<close> is at most
  \<open>maxConcurrentRequests\<close>, which is 3.
\<close>

theorem active_requests_bounded:
  "activeRequests (run evs initialService) \<le> maxConcurrentRequests \<and> maxConcurrentRequests = 3"
proof -
  have "queueInv (run evs initialService)" by (rule queueInv_run)
  then have "activeRequests (run evs initialService) \<le> 1"
    by (simp add: queueInv_def queueCore_def)
  then show ?thesis by (simp add: maxConcurrentRequests_def)
qed

lemma loopHead_start:
  assumes "activeRequests s = 0"
  shows "startedLog (loopHead s) = startedLog s @ take 1 (requestQueue s) \<and>
         requestQueue (loopHead s) = drop 1 (requestQueue s)"
  using assms
  by (cases "requestQueue s") (simp_all add: loopHead_def maxConcurrentRequests_def)

lemma settleAndDelay_round:
  assumes "queueInv s"
  shows "queueInv (settleAndDelay s) \<and>
         startedLog (settleAndDelay s) = startedLog s @ take 1 (requestQueue s) \<and>
         requestQueue (settleAndDelay s) = drop 1 (requestQueue s)"
proof -
  let ?t = "step (RequestSettled 0) s"
  have inv_t: "queueInv ?t" using assms by (rule queueInv_step)
  have keep: "startedLog ?t = startedLog s" "requestQueue ?t = requestQueue s"
    by simp_all
  have inv_u: "queueInv (settleAndDelay s)"
    unfolding settleAndDelay_def using inv_t by (rule queueInv_step)
  show ?thesis
  proof (cases "awaitingDelay ?t > 0")
    case True
    then have "length (awaitingRequest ?t) = 0"
      using inv_t unfolding queueInv_def queueCore_def by linarith
    then have "activeRequests (?t\<lparr>awaitingDelay := awaitingDelay ?t - 1\<rparr>) = 0"
      using inv_t by (simp add: queueInv_def queueCore_def)
    from loopHead_start [OF this] True keep inv_u show ?thesis
      by (simp add: settleAndDelay_def)
  next
    case False
    have "\<not> 0 < length (awaitingRequest s)"
    proof
      assume "0 < length (awaitingRequest s)"
      then have "awaitingDelay ?t = awaitingDelay s + 1" by simp
      with False show False by simp
    qed
    then have idle: "awaitingDelay s = 0" "awaitingRequest s = []"
      using False by simp_all
    then have "\<not> isProcessingQueue s" using assms by (simp add: queueInv_def queueCore_def)
    then have "requestQueue s = []" using assms by (simp add: queueInv_def queueCore_def)
    with idle inv_u show ?thesis by (simp add: settleAndDelay_def)
  qed
qed

lemma settleAndDelay_rounds:
  assumes "queueInv s"
  shows "queueInv ((settleAndDelay ^^ n) s) \<and>
         startedLog ((settleAndDelay ^^ n) s) = startedLog s @ take n (requestQueue s) \<and>
         requestQueue ((settleAndDelay ^^ n) s) = drop n (requestQueue s)"
proof (induction n)
  case 0
  show ?case using assms by simp
next
  case (Suc n)
  let ?t = "(settleAndDelay ^^ n) s"
  from Suc have inv: "queueInv ?t"
    and st: "startedLog ?t = startedLog s @ take n (requestQueue s)"
    and qu: "requestQueue ?t = drop n (requestQueue s)"
    by simp_all
  have "take n (requestQueue s) @ take 1 (drop n (requestQueue s)) = take (Suc n) (requestQueue s)"
    using take_add [of n 1 "requestQueue s"] by simp
  then show ?case
    using settleAndDelay_round [OF inv] st qu by simp
qed

lemma queueRequest_started:
  assumes "queueInv s"
  shows "startedLog (step (QueueRequest r) s)
           = (if isProcessingQueue s then startedLog s else startedLog s @ [r])"
proof (cases "isProcessingQueue s")
  case True
  then show ?thesis by (simp add: queueRequest_def processQueue_def)
next
  case False
  then have "length (awaitingRequest s) + awaitingDelay s = 0"
    using assms unfolding queueInv_def queueCore_def by linarith
  then have idle: "requestQueue s = []" "activeRequests s = 0"
    using assms False by (simp_all add: queueInv_def queueCore_def)
  then show ?thesis
    using False
    by (simp add: queueRequest_def processQueue_def loopHead_def maxConcurrentRequests_def)
qed

text \<open>
  Claim C6. After every sequence of events, the requests started so far, in the order they
  were started, followed by the requests still queued, are the requests enqueued so far in
  the order they were enqueued. A request enqueued while the processing flag is clear is
  started at once, and one enqueued while the flag is set (a request is running, or the
  delay after one has not ended) waits in the queue. Each time the running request settles
  and its delay ends the head of the queue is started: after \<open>n\<close> such rounds the first \<open>n\<close>
  queued requests have been started, in the order they were enqueued.
\<close>

theorem requests_started_fifo:
  "enqueuedLog (run evs initialService)
     = startedLog (run evs initialService) @ requestQueue (run evs initialService) \<and>
   startedLog (step (QueueRequest r) (run evs initialService))
     = (if isProcessingQueue (run evs initialService)
        then startedLog (run evs initialService)
        else startedLog (run evs initialService) @ [r]) \<and>
   startedLog ((settleAndDelay ^^ n) (run evs initialService))
     = startedLog (run evs initialService) @ take n (requestQueue (run evs initialService))"
proof -
  have inv: "queueInv (run evs initialService)" by (rule queueInv_run)
  then have "enqueuedLog (run evs initialService)
     = startedLog (run evs initialService) @ requestQueue (run evs initialService)"
    by (simp add: queueInv_def queueCore_def)
  then show ?thesis
    using queueRequest_started [OF inv] settleAndDelay_rounds [OF inv] by simp
qed

subsection \<open>Authentication errors and responses\<close>

lemma checkStoredToken_cases:
  "checkStoredToken a p =
     (if tokenAbsent a \<or> tokenUndecodable a \<or> tokenExpired a
      then (True, redirectToLogin p) else (False, p))"
proof (cases "storedToken a")
  case None
  then show ?thesis by (simp add: checkStoredToken_def tokenAbsent_def)
next
  case (Some token)
  show ?thesis
  proof (cases "token = []")
    case True
    with Some show ?thesis by (simp add: checkStoredToken_def tokenAbsent_def)
  next
    case False
    with Some show ?thesis
      by (simp add: checkStoredToken_def tokenAbsent_def tokenUndecodable_def tokenExpired_def
               split: decoded.split)
  qed
qed

text \<open>
  Claim C4. On a response with status 401 \<open>handleAuthError\<close> looks at the stored token; it
  removes the token, sets the location to \<open>/login\<close> and returns true exactly when the token is
  absent, cannot be decoded or has expired, and otherwise returns false and leaves the page
  as it is.
\<close>

theorem auth_error_redirects_iff_token_invalid:
  assumes "status r = 401"
  shows "handleAuthError a r p =
           (if tokenAbsent a \<or> tokenUndecodable a \<or> tokenExpired a
            then (True, p\<lparr>tokenRemoved := True, href := ''/login''\<rparr>)
            else (False, p))"
  using assms by (simp add: handleAuthError_def checkStoredToken_cases redirectToLogin_def)

theorem auth_error_redirects_iff_token_invalid_witness:
  "status \<lparr>status = 401, url = ''/api/v1/patients/me'', retryAfterHeader = None,
            json = (None :: unit option)\<rparr> = 401 \<and>
   handleAuthError
       \<lparr>storedToken = Some ''a.b.c'', decodePayload = (\<lambda>t. Payload (ExpNumber (Finite 50))),
        stringToNumber = (\<lambda>s. NaN), currentTime = 100\<rparr>
       \<lparr>status = 401, url = ''/api/v1/patients/me'', retryAfterHeader = None,
        json = (None :: unit option)\<rparr>
       \<lparr>href = ''/dashboard'', tokenRemoved = False\<rparr>
     = (True, \<lparr>href = ''/login'', tokenRemoved = True\<rparr>) \<and>
   handleAuthError
       \<lparr>storedToken = Some ''a.b.c'', decodePayload = (\<lambda>t. Payload ExpNull),
        stringToNumber = (\<lambda>s. NaN), currentTime = 100\<rparr>
       \<lparr>status = 401, url = ''/api/v1/patients/me'', retryAfterHeader = None,
        json = (None :: unit option)\<rparr>
       \<lparr>href = ''/dashboard'', tokenRemoved = False\<rparr>
     = (True, \<lparr>href = ''/login'', tokenRemoved = True\<rparr>) \<and>
   handleAuthError
       \<lparr>storedToken = Some ''a.b.c'', decodePayload = (\<lambda>t. Payload (ExpNumber (Finite 150))),
        stringToNumber = (\<lambda>s. NaN), currentTime = 100\<rparr>
       \<lparr>status = 401, url = ''/api/v1/patients/me'', retryAfterHeader = None,
        json = (None :: unit option)\<rparr>
       \<lparr>href = ''/dashboard'', tokenRemoved = False\<rparr>
     = (False, \<lparr>href = ''/dashboard'', tokenRemoved = False\<rparr>)"
proof -
  let ?r = "\<lparr>status = 401, url = ''/api/v1/patients/me'', retryAfterHeader = None,
             json = (None :: unit option)\<rparr>"
  let ?p = "\<lparr>href = ''/dashboard'', tokenRemoved = False\<rparr>"
  let ?old = "\<lparr>storedToken = Some ''a.b.c'', decodePayload = (\<lambda>t. Payload (ExpNumber (Finite 50))),
               stringToNumber = (\<lambda>s. NaN), currentTime = 100\<rparr>"
  let ?null = "\<lparr>storedToken = Some ''a.b.c'', decodePayload = (\<lambda>t. Payload ExpNull),
                stringToNumber = (\<lambda>s. NaN), currentTime = 100\<rparr>"
  let ?fresh = "\<lparr>storedToken = Some ''a.b.c'', decodePayload = (\<lambda>t. Payload (ExpNumber (Finite 150))),
                 stringToNumber = (\<lambda>s. NaN), currentTime = 100\<rparr>"
  have h: "status ?r = 401" by simp
  have a: "handleAuthError ?old ?r ?p = (True, \<lparr>href = ''/login'', tokenRemoved = True\<rparr>)"
    using auth_error_redirects_iff_token_invalid [OF h, of ?old ?p]
    by (simp add: tokenAbsent_def tokenUndecodable_def tokenExpired_def)
  have b: "handleAuthError ?null ?r ?p = (True, \<lparr>href = ''/login'', tokenRemoved = True\<rparr>)"
    using auth_error_redirects_iff_token_invalid [OF h, of ?null ?p]
    by (simp add: tokenAbsent_def tokenUndecodable_def tokenExpired_def)
  have c: "handleAuthError ?fresh ?r ?p = (False, ?p)"
    using auth_error_redirects_iff_token_invalid [OF h, of ?fresh ?p]
    by (simp add: tokenAbsent_def tokenUndecodable_def tokenExpired_def)
  show ?thesis using h a b c by simp
qed

lemma handleAuthError_not_401:
  "status r \<noteq> 401 \<Longrightarrow> handleAuthError a r p = (False, p)"
  by (simp add: handleAuthError_def)

text \<open>
  Claim C5, as stated, fails when the \<open>Retry-After\<close> header is present with an empty value:
  \<open>headers.get\<close> returns the empty string, which is falsy, and the message says 60 seconds
  instead of the header's value.
\<close>

theorem rate_limit_empty_header_counterexample:
  "fst (handleResponse
          \<lparr>baseURL = ''/api/v1'', basePath = '''', extractErrorMessage = (\<lambda>j c. ''failed''),
           emptyObject = ()\<rparr>
          \<lparr>storedToken = Some ''a.b.c'', decodePayload = (\<lambda>t. Payload (ExpNumber (Finite 150))),
           stringToNumber = (\<lambda>s. NaN), currentTime = 100\<rparr>
          \<lparr>status = 429, url = ''/api/v1/search/'', retryAfterHeader = Some '''', json = None\<rparr>
          ''Request failed'' 0 \<lparr>href = ''/search'', tokenRemoved = False\<rparr>)
     = Throw ''Rate limit exceeded. Please wait 60 seconds before trying again.'' \<and>
   Throw ''Rate limit exceeded. Please wait 60 seconds before trying again.''
     \<noteq> (Throw (rateLimitMessage '''') :: unit outcome)"
  by (simp add: handleResponse_def handleAuthError_def ok_def rateLimitMessage_def)

text \<open>
  Claim C5, amended. For every response with status 429 \<open>handleResponse\<close> throws the error
  "Rate limit exceeded. Please wait N seconds before trying again.", where N is the value
  of the \<open>Retry-After\<close> header, and 60 when the header is absent or empty; the page is not
  redirected.
\<close>

theorem rate_limit_message:
  assumes "status r = 429"
  shows "handleResponse svc a r errorMessage retryCount p =
           (Throw (rateLimitMessage
                     (case retryAfterHeader r of
                        None \<Rightarrow> ''60''
                      | Some v \<Rightarrow> if v = [] then ''60'' else v)), p)"
  using assms
  by (simp add: handleResponse_def handleAuthError_not_401 ok_def rateLimitMessage_def)

theorem rate_limit_message_witness:
  "status \<lparr>status = 429, url = ''/api/v1/search/'', retryAfterHeader = Some ''30'',
            json = (None :: unit option)\<rparr> = 429 \<and>
   handleResponse
       \<lparr>baseURL = ''/api/v1'', basePath = '''', extractErrorMessage = (\<lambda>j c. ''failed''),
        emptyObject = ()\<rparr>
       \<lparr>storedToken = None, decodePayload = (\<lambda>t. DecodeFails), stringToNumber = (\<lambda>s. NaN),
        currentTime = 100\<rparr>
       \<lparr>status = 429, url = ''/api/v1/search/'', retryAfterHeader = Some ''30'', json = None\<rparr>
       ''Request failed'' 0 \<lparr>href = ''/search'', tokenRemoved = False\<rparr>
     = (Throw ''Rate limit exceeded. Please wait 30 seconds before trying again.'',
        \<lparr>href = ''/search'', tokenRemoved = False\<rparr>)"
proof -
  let ?r = "\<lparr>status = 429, url = ''/api/v1/search/'', retryAfterHeader = Some ''30'',
             json = (None :: unit option)\<rparr>"
  have h: "status ?r = 429" by simp
  show ?thesis
    using h rate_limit_message [OF h, of
        "\<lparr>baseURL = ''/api/v1'', basePath = '''', extractErrorMessage = (\<lambda>j c. ''failed''),
          emptyObject = ()\<rparr>"
        "\<lparr>storedToken = None, decodePayload = (\<lambda>t. DecodeFails), stringToNumber = (\<lambda>s. NaN),
          currentTime = 100\<rparr>"
        "''Request failed''" 0
        "\<lparr>href = ''/search'', tokenRemoved = False\<rparr>"]
    by (simp add: rateLimitMessage_def)
qed

text \<open>
  Claim C2, as stated, fails for an address outside \<open>/admin/\<close>: a 401 with a token that is
  still valid is not retried, the error is thrown at once.
\<close>

theorem transient_401_not_retried_counterexample:
  "handleResponse
       \<lparr>baseURL = ''/api/v1'', basePath = '''', extractErrorMessage = (\<lambda>j c. ''Unauthorized''),
        emptyObject = ()\<rparr>
       \<lparr>storedToken = Some ''a.b.c'', decodePayload = (\<lambda>t. Payload (ExpNumber (Finite 150))),
        stringToNumber = (\<lambda>s. NaN), currentTime = 100\<rparr>
       \<lparr>status = 401, url = ''/api/v1/patients/me'', retryAfterHeader = None, json = None\<rparr>
       ''Request failed'' 0 \<lparr>href = ''/dashboard'', tokenRemoved = False\<rparr>
     = (Throw ''Unauthorized'', \<lparr>href = ''/dashboard'', tokenRemoved = False\<rparr>)"
  by (simp add: handleResponse_def handleAuthError_def checkStoredToken_def ok_def)

text \<open>
  Claim C2, amended. Whenever \<open>handleResponse\<close> receives a 401 from an address that does not
  contain \<open>/admin/\<close> while the stored token is present, decodable and unexpired, it does not
  retry the request: whatever the retry count, it throws the message extracted from the
  response at once, and nothing is redirected. Nothing is stated for addresses that contain
  \<open>/admin/\<close>.
\<close>

theorem transient_401_outside_admin_not_retried:
  assumes "status r = 401"
    and "\<not> tokenAbsent a" "\<not> tokenUndecodable a" "\<not> tokenExpired a"
    and "\<not> js_includes (url r) ''/admin/''"
  shows "handleResponse svc a r errorMessage retryCount p =
           (Throw (extractErrorMessage svc
                     (case json r of None \<Rightarrow> emptyObject svc | Some j \<Rightarrow> j) 401), p)"
proof -
  have "handleAuthError a r p = (False, p)"
    using assms(1-4) by (simp add: handleAuthError_def checkStoredToken_cases)
  then show ?thesis
    using assms(1,5) by (simp add: handleResponse_def ok_def)
qed

theorem transient_401_outside_admin_not_retried_witness:
  "status \<lparr>status = 401, url = ''/api/v1/patients/me'', retryAfterHeader = None,
            json = (None :: unit option)\<rparr> = 401 \<and>
   \<not> tokenAbsent \<lparr>storedToken = Some ''a.b.c'',
                   decodePayload = (\<lambda>t. Payload (ExpNumber (Finite 150))),
                   stringToNumber = (\<lambda>s. NaN), currentTime = 100\<rparr> \<and>
   \<not> tokenUndecodable \<lparr>storedToken = Some ''a.b.c'',
                   decodePayload = (\<lambda>t. Payload (ExpNumber (Finite 150))),
                   stringToNumber = (\<lambda>s. NaN), currentTime = 100\<rparr> \<and>
   \<not> tokenExpired \<lparr>storedToken = Some ''a.b.c'',
                   decodePayload = (\<lambda>t. Payload (ExpNumber (Finite 150))),
                   stringToNumber = (\<lambda>s. NaN), currentTime = 100\<rparr> \<and>
   \<not> js_includes (url \<lparr>status = 401, url = ''/api/v1/patients/me'', retryAfterHeader = None,
                        json = (None :: unit option)\<rparr>) ''/admin/'' \<and>
   handleResponse
       \<lparr>baseURL = ''/api/v1'', basePath = '''', extractErrorMessage = (\<lambda>j c. ''Unauthorized''),
        emptyObject = ()\<rparr>
       \<lparr>storedToken = Some ''a.b.c'', decodePayload = (\<lambda>t. Payload (ExpNumber (Finite 150))),
        stringToNumber = (\<lambda>s. NaN), currentTime = 100\<rparr>
       \<lparr>status = 401, url = ''/api/v1/patients/me'', retryAfterHeader = None, json = None\<rparr>
       ''Request failed'' 1 \<lparr>href = ''/dashboard'', tokenRemoved = False\<rparr>
     = (Throw ''Unauthorized'', \<lparr>href = ''/dashboard'', tokenRemoved = False\<rparr>)"
proof -
  let ?r = "\<lparr>status = 401, url = ''/api/v1/patients/me'', retryAfterHeader = None,
             json = (None :: unit option)\<rparr>"
  let ?a = "\<lparr>storedToken = Some ''a.b.c'', decodePayload = (\<lambda>t. Payload (ExpNumber (Finite 150))),
             stringToNumber = (\<lambda>s. NaN), currentTime = 100\<rparr>"
  have h1: "status ?r = 401" by simp
  have h2: "\<not> tokenAbsent ?a" by (simp add: tokenAbsent_def)
  have h3: "\<not> tokenUndecodable ?a" by (simp add: tokenUndecodable_def)
  have h4: "\<not> tokenExpired ?a" by (simp add: tokenExpired_def)
  have h5: "\<not> js_includes (url ?r) ''/admin/''" by simp
  show ?thesis
    using h1 h2 h3 h4 h5 transient_401_outside_admin_not_retried [OF h1 h2 h3 h4 h5, of
        "\<lparr>baseURL = ''/api/v1'', basePath = '''', extractErrorMessage = (\<lambda>j c. ''Unauthorized''),
          emptyObject = ()\<rparr>"
        "''Request failed''" 1 "\<lparr>href = ''/dashboard'', tokenRemoved = False\<rparr>"]
    by simp
qed

subsection \<open>Abort signals\<close>

text \<open>
  Claim C7, as stated, fails for \<open>post\<close>, \<open>put\<close>, \<open>patch\<close> and \<open>delete\<close> of \<open>BaseApiService\<close>:
  they have no options parameter, and an options object with a signal given in the last
  position does not reach \<open>fetch\<close>.
\<close>

theorem base_post_drops_signal_counterexample:
  "initSignal (snd (baseFetch POST
       \<lparr>baseURL = ''/api/v1'', basePath = ''/admin'', extractErrorMessage = (\<lambda>j c. ''failed''),
        emptyObject = ()\<rparr>
       (\<lambda>ps. '''') ''/users'' (1::nat)
       (OptionsArg \<lparr>optParams = None, optSignal = Some (7::nat), optErrorMessage = None\<rparr>)))
     = None"
  by (simp add: basePost_def)

text \<open>
  Claim C7, amended. For each of GET, POST, PUT, PATCH and DELETE, every \<open>fetch\<close> call made
  by \<open>ApiService\<close> carries the signal of the caller's options unchanged, and so does the
  \<open>fetch\<close> call of \<open>BaseApiService.get\<close>; the \<open>fetch\<close> calls of \<open>post\<close>, \<open>put\<close>, \<open>patch\<close> and
  \<open>delete\<close> of \<open>BaseApiService\<close> carry no signal.
\<close>

theorem signal_passed_to_fetch:
  "map (initSignal \<circ> snd) (apiFetch m apiBase fallbackURL toQueryString endpoint data options)
     = [optSignal options, optSignal options] \<and>
   initSignal (snd (baseFetch m svc toQueryString endpoint d lastArg))
     = (if m = GET then argSignal lastArg else None)"
  by (cases m)
     (simp_all add: request_def Let_def baseGet_def basePost_def basePut_def basePatch_def
        baseDelete_def)

subsection \<open>Paginated search\<close>

lemma searchBody_get_fails:
  assumes "apiGet ''/search/'' (searchParams q patientId paginationOptions) = Inl e"
  shows "\<exists>e'. searchBody render apiGet q patientId paginationOptions = Inl e'"
  using assms by (cases "hasQuery q") (simp_all add: searchBody_def)

text \<open>
  Claim C8. \<open>searchWithPagination\<close> never rejects: for every query, patient id and
  pagination options it resolves with a result; and when the patient id is falsy or the GET
  request fails, the result is the empty one: no results, total count 0, pagination
  \<open>{ skip: 0, limit: 20, hasMore: false }\<close>.
\<close>

theorem search_never_rejects:
  "(\<exists>found. searchWithPagination render apiGet q patientId paginationOptions = Inr found) \<and>
   (\<not> truthy patientId \<or>
    (\<exists>e. apiGet ''/search/'' (searchParams q patientId paginationOptions) = Inl e)
    \<longrightarrow> searchWithPagination render apiGet q patientId paginationOptions
          = Inr \<lparr>results = [], totalCount = 0,
                 pagination = \<lparr>skip = 0, limit = 20, hasMore = False\<rparr>,
                 resultsByType = None\<rparr>)"
proof (intro conjI impI)
  show "\<exists>found. searchWithPagination render apiGet q patientId paginationOptions = Inr found"
    by (cases "searchBody render apiGet q patientId paginationOptions")
       (simp_all add: searchWithPagination_def)
next
  assume h: "\<not> truthy patientId \<or>
    (\<exists>e. apiGet ''/search/'' (searchParams q patientId paginationOptions) = Inl e)"
  show "searchWithPagination render apiGet q patientId paginationOptions
          = Inr \<lparr>results = [], totalCount = 0,
                 pagination = \<lparr>skip = 0, limit = 20, hasMore = False\<rparr>,
                 resultsByType = None\<rparr>"
  proof (cases "truthy patientId")
    case False
    then show ?thesis by (simp add: searchWithPagination_def emptySearch_def)
  next
    case True
    with h obtain e where "apiGet ''/search/'' (searchParams q patientId paginationOptions) = Inl e"
      by blast
    then obtain e' where "searchBody render apiGet q patientId paginationOptions = Inl e'"
      using searchBody_get_fails by blast
    then show ?thesis by (simp add: searchWithPagination_def emptySearch_def)
  qed
qed

theorem search_never_rejects_witness:
  "searchWithPagination (\<lambda>t (i::nat). (t, i)) (\<lambda>path ps. Inl (RequestError ''Failed to fetch''))
       (JStr ''aspirin'') (JNum 3) [(''limit'', JNum 100)]
     = Inr \<lparr>results = [], totalCount = 0,
            pagination = \<lparr>skip = 0, limit = 20, hasMore = False\<rparr>,
            resultsByType = None\<rparr> \<and>
   searchWithPagination (\<lambda>t (i::nat). (t, i))
       (\<lambda>path ps. Inr (Some \<lparr>data_results = Some [(''medications'', Some \<lparr>items = Some [Some 5]\<rparr>)],
                               data_total_count = Some 1, data_pagination = None\<rparr>))
       (JStr ''aspirin'') JNull [(''limit'', JNum 100)]
     = Inr \<lparr>results = [], totalCount = 0,
            pagination = \<lparr>skip = 0, limit = 20, hasMore = False\<rparr>,
            resultsByType = None\<rparr>"
proof -
  have a: "\<exists>e. (\<lambda>path ps. Inl (RequestError ''Failed to fetch'')
                    :: failure + nat searchData option) ''/search/''
                 (searchParams (JStr ''aspirin'') (JNum 3) [(''limit'', JNum 100)]) = Inl e"
    by simp
  have b: "\<not> truthy JNull" by simp
  show ?thesis
    using search_never_rejects [of "\<lambda>t (i::nat). (t, i)"
            "\<lambda>path ps. Inl (RequestError ''Failed to fetch'')"
            "JStr ''aspirin''" "JNum 3" "[(''limit'', JNum 100)]", THEN conjunct2] a
          search_never_rejects [of "\<lambda>t (i::nat). (t, i)"
            "\<lambda>path ps. Inr (Some \<lparr>data_results = Some [(''medications'', Some \<lparr>items = Some [Some 5]\<rparr>)],
                               data_total_count = Some 1, data_pagination = None\<rparr>)"
            "JStr ''aspirin''" JNull "[(''limit'', JNum 100)]", THEN conjunct2] b
    by blast
qed

subsection \<open>Creating a medication\<close>

lemma js_get_fold:
  "js_get (fold (\<lambda>key acc. let v = js_get d key in if kept v then AList.update key v acc else acc)
             ks acc0) k
   = (if k \<in> set ks \<and> kept (js_get d k) then js_get d k else js_get acc0 k)"
  by (induction ks arbitrary: acc0) (auto simp: js_get_def Let_def update_conv')

lemma keys_fold:
  "set (map fst (fold (\<lambda>key acc. let v = js_get d key in if kept v then AList.update key v acc else acc)
                   ks acc0))
   = set (map fst acc0) \<union> {k \<in> set ks. kept (js_get d k)}"
  by (induction ks arbitrary: acc0) (auto simp: Let_def dom_update)

lemma js_get_cleanPayload:
  "js_get (cleanPayload d) k
     = (if k \<in> set (map fst d) \<and> kept (js_get d k) then js_get d k else JUndefined)"
  unfolding cleanPayload_def js_get_fold by (simp add: js_get_def)

lemma keys_cleanPayload:
  "set (map fst (cleanPayload d)) = {k \<in> set (map fst d). kept (js_get d k)}"
  unfolding cleanPayload_def keys_fold by simp

lemma js_get_absent: "k \<notin> set (map fst d) \<Longrightarrow> js_get d k = JUndefined"
  by (simp add: js_get_def map_of_eq_None_iff [THEN iffD2])

lemma truthy_cleanPayload: "truthy (js_get (cleanPayload d) k) = truthy (js_get d k)"
proof (cases "k \<in> set (map fst d)")
  case True
  show ?thesis
  proof (cases "kept (js_get d k)")
    case True
    with \<open>k \<in> set (map fst d)\<close> show ?thesis by (simp add: js_get_cleanPayload)
  next
    case False
    then have "\<not> truthy (js_get d k)" by (auto simp: kept_def)
    with False show ?thesis by (simp add: js_get_cleanPayload)
  qed
next
  case False
  then show ?thesis by (simp add: js_get_cleanPayload js_get_absent)
qed

text \<open>
  Claim C10, as stated, fails for a medication name that is falsy without being the empty
  string, \<open>null\<close> or \<open>undefined\<close>: the number 0 is kept in the payload, and \<open>!0\<close> holds, so the
  error is thrown.
\<close>

theorem create_medication_zero_name_counterexample:
  "createMedication [(''medication_name'', JNum 0)] (None :: nat option)
     = Inl ''Medication name is required'' \<and>
   JNum 0 \<noteq> JStr '''' \<and> JNum 0 \<noteq> JNull \<and> JNum 0 \<noteq> JUndefined"
  by (simp add: createMedication_def cleanPayload_def js_get_def kept_def)

text \<open>
  Claim C10, amended. \<open>createMedication\<close> throws "Medication name is required", and posts
  nothing, exactly when \<open>medication_name\<close> is absent or falsy in the data (the empty string,
  \<open>null\<close>, \<open>undefined\<close>, 0, \<open>NaN\<close>, \<open>false\<close>); otherwise it posts to \<open>/medications/\<close> a payload
  whose keys are exactly the keys of the data with a value other than the empty string,
  \<open>null\<close> and \<open>undefined\<close>, each with the value it has in the data.
\<close>

theorem create_medication_payload:
  "createMedication d sig =
     (if \<not> truthy (js_get d ''medication_name'') then Inl ''Medication name is required''
      else Inr (''/medications/'', cleanPayload d, sig)) \<and>
   set (map fst (cleanPayload d))
     = {k \<in> set (map fst d). js_get d k \<noteq> JStr '''' \<and> js_get d k \<noteq> JNull \<and> js_get d k \<noteq> JUndefined} \<and>
   (\<forall>k \<in> set (map fst (cleanPayload d)). js_get (cleanPayload d) k = js_get d k)"
proof -
  have a: "createMedication d sig =
     (if \<not> truthy (js_get d ''medication_name'') then Inl ''Medication name is required''
      else Inr (''/medications/'', cleanPayload d, sig))"
    by (simp add: createMedication_def Let_def truthy_cleanPayload)
  have b: "set (map fst (cleanPayload d))
     = {k \<in> set (map fst d). js_get d k \<noteq> JStr '''' \<and> js_get d k \<noteq> JNull \<and> js_get d k \<noteq> JUndefined}"
    unfolding keys_cleanPayload by (simp add: kept_def)
  have c: "\<forall>k \<in> set (map fst (cleanPayload d)). js_get (cleanPayload d) k = js_get d k"
    unfolding keys_cleanPayload by (simp add: js_get_cleanPayload)
  from a b c show ?thesis by blast
qed

theorem create_medication_payload_witness:
  "createMedication
       [(''medication_name'', JStr ''Aspirin''), (''dosage'', JStr ''''), (''notes'', JNull),
        (''quantity'', JNum 0)] (Some (7::nat))
     = Inr (''/medications/'', [(''medication_name'', JStr ''Aspirin''), (''quantity'', JNum 0)],
            Some 7) \<and>
   ''quantity'' \<in> set (map fst (cleanPayload
       [(''medication_name'', JStr ''Aspirin''), (''dosage'', JStr ''''), (''notes'', JNull),
        (''quantity'', JNum 0)])) \<and>
   js_get (cleanPayload
       [(''medication_name'', JStr ''Aspirin''), (''dosage'', JStr ''''), (''notes'', JNull),
        (''quantity'', JNum 0)]) ''quantity'' = JNum 0"
proof -
  let ?d = "[(''medication_name'', JStr ''Aspirin''), (''dosage'', JStr ''''), (''notes'', JNull),
             (''quantity'', JNum 0)]"
  have cp: "cleanPayload ?d = [(''medication_name'', JStr ''Aspirin''), (''quantity'', JNum 0)]"
    by (simp add: cleanPayload_def js_get_def kept_def)
  have t: "truthy (js_get ?d ''medication_name'')"
    by (simp add: js_get_def)
  have g: "js_get ?d ''quantity'' = JNum 0"
    by (simp add: js_get_def)
  have b: "''quantity'' \<in> set (map fst (cleanPayload ?d))"
    unfolding cp by simp
  note payload = create_medication_payload [of ?d "Some (7::nat)"]
  have "createMedication ?d (Some (7::nat)) = Inr (''/medications/'', cleanPayload ?d, Some 7)"
    using payload [THEN conjunct1] t by (simp only: not_True_eq_False if_False)
  then have a: "createMedication ?d (Some (7::nat))
      = Inr (''/medications/'', [(''medication_name'', JStr ''Aspirin''), (''quantity'', JNum 0)], Some 7)"
    by (simp only: cp)
  have "js_get (cleanPayload ?d) ''quantity'' = js_get ?d ''quantity''"
    using payload [THEN conjunct2, THEN conjunct2] b by (rule bspec)
  then have c: "js_get (cleanPayload ?d) ''quantity'' = JNum 0"
    using g by (rule trans)
  from a b c show ?thesis by blast
qed

subsection \<open>Search results page\<close>

lemma mset_insertRow: "mset (insertRow cmp x xs) = add_mset x (mset xs)"
  by (induction xs) simp_all

lemma mset_stableSort: "mset (stableSort cmp xs) = mset xs"
  unfolding stableSort_def by (induction xs) (simp_all add: mset_insertRow)

lemma set_stableSort: "set (stableSort cmp xs) = set xs"
  using mset_stableSort [of cmp xs] by (metis set_mset_mset)

lemma set_insertRow: "set (insertRow cmp x xs) = insert x (set xs)"
  using mset_insertRow [of cmp x xs] by (metis set_mset_mset set_mset_add_mset_insert)

lemma consistentOn_trans:
  "consistentOn S cmp \<Longrightarrow> a \<in> S \<Longrightarrow> b \<in> S \<Longrightarrow> c \<in> S \<Longrightarrow>
   sortCompare cmp a b \<le> 0 \<Longrightarrow> sortCompare cmp b c \<le> 0 \<Longrightarrow> sortCompare cmp a c \<le> 0"
  unfolding consistentOn_def by blast

lemma consistentOn_total:
  assumes "consistentOn S cmp" "a \<in> S" "b \<in> S"
  shows "sortCompare cmp a b \<le> 0 \<or> sortCompare cmp b a \<le> 0"
proof -
  have "(sortCompare cmp b a < 0) = (sortCompare cmp a b > 0)"
    using assms unfolding consistentOn_def by blast
  then show ?thesis by linarith
qed

lemma consistentOn_sym:
  assumes "consistentOn S cmp" "a \<in> S" "b \<in> S" "sortCompare cmp a b = 0"
  shows "sortCompare cmp b a = 0"
proof -
  have "(sortCompare cmp b a < 0) = (sortCompare cmp a b > 0)"
    and "(sortCompare cmp a b < 0) = (sortCompare cmp b a > 0)"
    using assms(1-3) unfolding consistentOn_def by blast+
  then show ?thesis using assms(4) by linarith
qed

lemma consistentOn_subset: "consistentOn S cmp \<Longrightarrow> T \<subseteq> S \<Longrightarrow> consistentOn T cmp"
  unfolding consistentOn_def by blast

text \<open>
  Inserting into a sorted list keeps it sorted when the comparison function is consistent
  on the elements concerned.
\<close>

lemma sorted_insertRow:
  assumes con: "consistentOn S cmp"
    and sub: "insert x (set xs) \<subseteq> S"
    and srt: "sorted_wrt (\<lambda>a b. sortCompare cmp a b \<le> 0) xs"
  shows "sorted_wrt (\<lambda>a b. sortCompare cmp a b \<le> 0) (insertRow cmp x xs)"
  using sub srt
proof (induction xs)
  case Nil
  then show ?case by simp
next
  case (Cons y ys)
  show ?case
  proof (cases "sortCompare cmp x y \<le> 0")
    case True
    have "\<forall>z \<in> set ys. sortCompare cmp x z \<le> 0"
    proof
      fix z assume z: "z \<in> set ys"
      then have "sortCompare cmp y z \<le> 0" using Cons.prems(2) by simp
      moreover have "x \<in> S" "y \<in> S" "z \<in> S" using Cons.prems(1) z by auto
      ultimately show "sortCompare cmp x z \<le> 0"
        using True consistentOn_trans [OF con] by blast
    qed
    then show ?thesis using True Cons.prems(2) by simp
  next
    case False
    have xy: "x \<in> S" "y \<in> S" using Cons.prems(1) by auto
    then have yx: "sortCompare cmp y x \<le> 0"
      using False consistentOn_total [OF con] by blast
    have ih: "sorted_wrt (\<lambda>a b. sortCompare cmp a b \<le> 0) (insertRow cmp x ys)"
      using Cons.IH Cons.prems by auto
    have "\<forall>z \<in> set (insertRow cmp x ys). sortCompare cmp y z \<le> 0"
      using yx Cons.prems(2) by (simp add: set_insertRow)
    then show ?thesis using False ih by simp
  qed
qed

lemma sorted_stableSort:
  assumes con: "consistentOn S cmp" and sub: "set xs \<subseteq> S"
  shows "sorted_wrt (\<lambda>a b. sortCompare cmp a b \<le> 0) (stableSort cmp xs)"
  using sub
proof (induction xs)
  case Nil
  then show ?case by (simp add: stableSort_def)
next
  case (Cons x xs)
  have srt: "sorted_wrt (\<lambda>a b. sortCompare cmp a b \<le> 0) (stableSort cmp xs)"
    using Cons by simp
  have sub': "insert x (set (stableSort cmp xs)) \<subseteq> S"
    using Cons.prems by (simp add: set_stableSort)
  have "sorted_wrt (\<lambda>a b. sortCompare cmp a b \<le> 0) (insertRow cmp x (stableSort cmp xs))"
    by (rule sorted_insertRow [OF con sub' srt])
  then show ?case by (simp add: stableSort_def)
qed

text \<open>Insertion puts an element before the elements that compare equal to it.\<close>

lemma filter_insertRow:
  assumes con: "consistentOn S cmp" and a: "a \<in> S" and sub: "insert x (set xs) \<subseteq> S"
  shows "filter (\<lambda>b. sortCompare cmp a b = 0) (insertRow cmp x xs)
           = filter (\<lambda>b. sortCompare cmp a b = 0) (x # xs)"
  using sub
proof (induction xs)
  case Nil
  then show ?case by simp
next
  case (Cons y ys)
  show ?case
  proof (cases "sortCompare cmp x y \<le> 0")
    case True
    then show ?thesis by simp
  next
    case False
    have ih: "filter (\<lambda>b. sortCompare cmp a b = 0) (insertRow cmp x ys)
                = filter (\<lambda>b. sortCompare cmp a b = 0) (x # ys)"
      using Cons by auto
    have xy: "x \<in> S" "y \<in> S" using Cons.prems by auto
    have "\<not> (sortCompare cmp a x = 0 \<and> sortCompare cmp a y = 0)"
    proof
      assume e: "sortCompare cmp a x = 0 \<and> sortCompare cmp a y = 0"
      then have "sortCompare cmp x a = 0"
        using consistentOn_sym [OF con a xy(1)] by simp
      then have "sortCompare cmp x y \<le> 0"
        using e consistentOn_trans [OF con xy(1) a xy(2)] by simp
      with False show False by simp
    qed
    then show ?thesis using False ih by auto
  qed
qed

lemma filter_stableSort:
  assumes con: "consistentOn S cmp" and a: "a \<in> S" and sub: "set xs \<subseteq> S"
  shows "filter (\<lambda>b. sortCompare cmp a b = 0) (stableSort cmp xs)
           = filter (\<lambda>b. sortCompare cmp a b = 0) xs"
  using sub
proof (induction xs)
  case Nil
  then show ?case by (simp add: stableSort_def)
next
  case (Cons x xs)
  have sub': "insert x (set (stableSort cmp xs)) \<subseteq> S"
    using Cons.prems by (simp add: set_stableSort)
  have "filter (\<lambda>b. sortCompare cmp a b = 0) (insertRow cmp x (stableSort cmp xs))
          = filter (\<lambda>b. sortCompare cmp a b = 0) (x # stableSort cmp xs)"
    by (rule filter_insertRow [OF con a sub'])
  then show ?case using Cons by (simp add: stableSort_def)
qed

text \<open>The insertion sort sorts as the language specifies.\<close>

lemma arraySort_stableSort: "arraySort stableSort"
  unfolding arraySort_def
proof (intro allI conjI impI ballI)
  fix cmp :: "'a \<Rightarrow> 'a \<Rightarrow> int option" and xs
  show "mset (stableSort cmp xs) = mset xs" by (rule mset_stableSort)
next
  fix cmp :: "'a \<Rightarrow> 'a \<Rightarrow> int option" and xs
  assume "consistentOn (set xs) cmp"
  then show "sorted_wrt (\<lambda>a b. sortCompare cmp a b \<le> 0) (stableSort cmp xs)"
    by (rule sorted_stableSort) simp
next
  fix cmp :: "'a \<Rightarrow> 'a \<Rightarrow> int option" and xs a
  assume "consistentOn (set xs) cmp" "a \<in> set xs"
  then show "filter (\<lambda>b. sortCompare cmp a b = 0) (stableSort cmp xs)
               = filter (\<lambda>b. sortCompare cmp a b = 0) xs"
    by (rule filter_stableSort) simp
qed

text \<open>What the specification of \<open>sort\<close> gives for a comparison function that is consistent.\<close>

lemma arraySort_mset: "arraySort srt \<Longrightarrow> mset (srt cmp xs) = mset xs"
  unfolding arraySort_def by blast

lemma arraySort_sorted:
  "arraySort srt \<Longrightarrow> consistentOn (set xs) cmp \<Longrightarrow>
   sorted_wrt (\<lambda>a b. sortCompare cmp a b \<le> 0) (srt cmp xs)"
  unfolding arraySort_def by blast

lemma arraySort_stable:
  "arraySort srt \<Longrightarrow> consistentOn (set xs) cmp \<Longrightarrow> a \<in> set xs \<Longrightarrow>
   filter (\<lambda>b. sortCompare cmp a b = 0) (srt cmp xs) = filter (\<lambda>b. sortCompare cmp a b = 0) xs"
  unfolding arraySort_def by blast

text \<open>A comparison function that always returns 0 leaves the array as it is.\<close>

lemma arraySort_equal:
  assumes "arraySort srt" and z: "\<And>a b. cmp a b = Some 0"
  shows "srt cmp xs = xs"
proof (cases xs)
  case Nil
  have "mset (srt cmp xs) = mset xs" using assms(1) by (rule arraySort_mset)
  then show ?thesis using Nil by simp
next
  case (Cons x ys)
  have v: "\<And>a b. sortCompare cmp a b = 0" by (simp add: sortCompare_def z)
  have con: "consistentOn (set xs) cmp"
    by (simp add: consistentOn_def v z)
  have "filter (\<lambda>b. sortCompare cmp x b = 0) (srt cmp xs) = filter (\<lambda>b. sortCompare cmp x b = 0) xs"
    using assms(1) con by (rule arraySort_stable) (simp add: Cons)
  then show ?thesis by (simp add: v)
qed

lemma js_slice_page:
  assumes "0 \<le> start"
  shows "js_slice xs start (start + int n) = take n (drop (nat start) xs)"
proof (cases "start \<le> int (length xs)")
  case True
  have "min (start + int n) (int (length xs)) - start = min (int n) (int (length xs) - start)"
    by linarith
  moreover have "nat (min (int n) (int (length xs) - start)) = min n (length xs - nat start)"
    using assms True by linarith
  moreover have "take (min n (length xs - nat start)) (drop (nat start) xs)
                 = take n (drop (nat start) xs)"
    by (metis length_drop take_all_iff min.cobounded2 min_def take_take nle_le)
  ultimately show ?thesis
    using assms True by (simp add: js_slice_def Let_def min_absorb1)
next
  case False
  then have "length xs \<le> nat start" using assms by linarith
  then show ?thesis
    using assms False by (simp add: js_slice_def Let_def)
qed

lemma js_trim_Nil: "js_trim [] = []"
  by (simp add: js_trim_def)

lemma hasDate_textRow: "hasDate (textRow r) = hasDate r"
  by (simp add: hasDate_def textRow_def)

lemma rowDate_textRow: "rowDate en (textRow r) = rowDate en r"
  by (simp add: rowDate_def textRow_def)

lemma set_selectRows: "set (selectRows en selectedTags q textRows tagRows) \<subseteq> set textRows \<union> set tagRows"
  by (auto simp: selectRows_def Let_def)

lemma set_dateFiltered: "set (dateFiltered en dateRange rows) \<subseteq> set rows"
  by (auto simp: dateFiltered_def)

text \<open>The date filter of the page keeps the rows within the range.\<close>

lemma inDateRange_within:
  assumes "fst dateRange \<noteq> None \<or> snd dateRange \<noteq> None"
  shows "inDateRange en dateRange r = withinDateRange en dateRange r"
proof (cases dateRange)
  case (Pair lo hi)
  show ?thesis
  proof (cases "date r")
    case None
    with Pair assms show ?thesis
      by (auto simp: inDateRange_def withinDateRange_def hasDate_def split: option.splits)
  next
    case (Some d)
    with Pair assms show ?thesis
      by (cases lo; cases hi; cases "parseDate en d")
         (auto simp: inDateRange_def withinDateRange_def hasDate_def rowDate_def dateBefore_def
               Let_def split: option.splits)
  qed
qed

lemma dateFiltered_within:
  "dateFiltered en dateRange rows = filter (withinDateRange en dateRange) rows"
proof (cases "fst dateRange \<noteq> None \<or> snd dateRange \<noteq> None")
  case True
  then show ?thesis
    by (simp add: dateFiltered_def inDateRange_within cong: filter_cong)
next
  case False
  then have "dateRange = (None, None)" by (cases dateRange) simp
  then show ?thesis by (simp add: dateFiltered_def withinDateRange_def)
qed

text \<open>
  On rows whose dates parse, the comparison by date is consistent; it is the order of the
  specification.
\<close>

lemma compareRows_date:
  assumes s: "sortBy = ''date_desc'' \<or> sortBy = ''date_asc''"
    and a: "\<not> hasDate a \<or> rowDate en a \<noteq> None"
    and b: "\<not> hasDate b \<or> rowDate en b \<noteq> None"
  shows "compareRows en sortBy a b =
           Some (if \<not> hasDate a \<and> \<not> hasDate b then 0
                 else if \<not> hasDate a then 1
                 else if \<not> hasDate b then - 1
                 else if sortBy = ''date_desc'' then the (rowDate en b) - the (rowDate en a)
                 else the (rowDate en a) - the (rowDate en b))"
proof (cases "hasDate a \<and> hasDate b")
  case True
  then obtain ta tb where "rowDate en a = Some ta" "rowDate en b = Some tb"
    using a b by auto
  with True s show ?thesis by (auto simp: compareRows_def dateDiff_def)
next
  case False
  with s show ?thesis by (auto simp: compareRows_def)
qed

lemma consistentOn_date:
  assumes s: "sortBy = ''date_desc'' \<or> sortBy = ''date_asc''"
  shows "consistentOn {r. \<not> hasDate r \<or> rowDate en r \<noteq> None} (compareRows en sortBy)"
  unfolding consistentOn_def
proof (intro conjI ballI impI)
  fix a b assume "a \<in> {r. \<not> hasDate r \<or> rowDate en r \<noteq> None}"
    "b \<in> {r. \<not> hasDate r \<or> rowDate en r \<noteq> None}"
  then have ab: "\<not> hasDate a \<or> rowDate en a \<noteq> None" "\<not> hasDate b \<or> rowDate en b \<noteq> None"
    by simp_all
  show "compareRows en sortBy a b \<noteq> None"
    using compareRows_date [OF s ab] by simp
  show "(sortCompare (compareRows en sortBy) a b < 0) = (0 < sortCompare (compareRows en sortBy) b a)"
    unfolding sortCompare_def compareRows_date [OF s ab] compareRows_date [OF s ab(2) ab(1)]
    by auto
next
  fix a b c assume "a \<in> {r. \<not> hasDate r \<or> rowDate en r \<noteq> None}"
    "b \<in> {r. \<not> hasDate r \<or> rowDate en r \<noteq> None}"
    "c \<in> {r. \<not> hasDate r \<or> rowDate en r \<noteq> None}"
  then have abc: "\<not> hasDate a \<or> rowDate en a \<noteq> None" "\<not> hasDate b \<or> rowDate en b \<noteq> None"
      "\<not> hasDate c \<or> rowDate en c \<noteq> None"
    by simp_all
  assume "sortCompare (compareRows en sortBy) a b \<le> 0 \<and> sortCompare (compareRows en sortBy) b c \<le> 0"
  then show "sortCompare (compareRows en sortBy) a c \<le> 0"
    unfolding sortCompare_def compareRows_date [OF s abc(1) abc(2)]
      compareRows_date [OF s abc(2) abc(3)] compareRows_date [OF s abc(1) abc(3)]
    by (auto split: if_splits)
qed

lemma newerFirst_of_compare:
  assumes a: "\<not> hasDate a \<or> rowDate en a \<noteq> None" and b: "\<not> hasDate b \<or> rowDate en b \<noteq> None"
    and le: "sortCompare (compareRows en ''date_desc'') a b \<le> 0"
  shows "newerFirst en a b"
  using le a b
  unfolding sortCompare_def compareRows_date [of "''date_desc''" a en b, OF _ a b, simplified]
  by (auto simp: newerFirst_def split: if_splits)

lemma olderFirst_of_compare:
  assumes a: "\<not> hasDate a \<or> rowDate en a \<noteq> None" and b: "\<not> hasDate b \<or> rowDate en b \<noteq> None"
    and le: "sortCompare (compareRows en ''date_asc'') a b \<le> 0"
  shows "olderFirst en a b"
  using le a b
  unfolding sortCompare_def compareRows_date [of "''date_asc''" a en b, OF _ a b, simplified]
  by (auto simp: olderFirst_def split: if_splits)

text \<open>The comparison by title is consistent when \<open>localeCompare\<close> is.\<close>

lemma sortCompare_Some: "sortCompare (\<lambda>a b. Some (f a b)) a b = f a b"
  by (simp add: sortCompare_def)

lemma consistentOn_title:
  assumes "consistentOn UNIV (\<lambda>s t. Some (localeCompare en s t))"
  shows "consistentOn S (compareRows en ''title'')"
    and "consistentOn S (compareRows en ''title_desc'')"
proof -
  have sym: "\<And>s t. (localeCompare en s t < 0) = (localeCompare en t s > 0)"
    and tr: "\<And>s t u. localeCompare en s t \<le> 0 \<Longrightarrow> localeCompare en t u \<le> 0
               \<Longrightarrow> localeCompare en s u \<le> 0"
    using assms unfolding consistentOn_def sortCompare_Some by blast+
  have t: "compareRows en ''title'' = (\<lambda>a b. Some (localeCompare en (titleKey en a) (titleKey en b)))"
    by (simp add: compareRows_def fun_eq_iff)
  have d: "compareRows en ''title_desc''
             = (\<lambda>a b. Some (localeCompare en (titleKey en b) (titleKey en a)))"
    by (simp add: compareRows_def fun_eq_iff)
  show "consistentOn S (compareRows en ''title'')"
    unfolding t consistentOn_def sortCompare_Some using sym tr by blast
  show "consistentOn S (compareRows en ''title_desc'')"
    unfolding d consistentOn_def sortCompare_Some using sym tr by blast
qed

lemma consistentOn_codePointCompare: "consistentOn S (\<lambda>s t. Some (codePointCompare s t))"
  unfolding consistentOn_def sortCompare_Some codePointCompare_def by auto

lemma selected_datesParse:
  assumes "datesParse en searchResults" "datesParse en tagRows"
  shows "set (dateFiltered en dateRange (selectRows en selectedTags q (map textRow searchResults) tagRows))
           \<subseteq> {r. \<not> hasDate r \<or> rowDate en r \<noteq> None}"
proof -
  have "set (map textRow searchResults) \<subseteq> {r. \<not> hasDate r \<or> rowDate en r \<noteq> None}"
    using assms(1) by (auto simp: datesParse_def list_all_iff hasDate_textRow rowDate_textRow)
  moreover have "set tagRows \<subseteq> {r. \<not> hasDate r \<or> rowDate en r \<noteq> None}"
    using assms(2) by (auto simp: datesParse_def list_all_iff)
  ultimately show ?thesis
    using set_selectRows [of en selectedTags q "map textRow searchResults" tagRows]
      set_dateFiltered [of en dateRange
        "selectRows en selectedTags q (map textRow searchResults) tagRows"]
    by blast
qed

lemma allFilteredResults_sort:
  "allFilteredResults en searchResults tagRows selectedTags q sortBy dateRange
     = sortRows en (compareRows en sortBy)
         (filter (withinDateRange en dateRange)
            (selectRows en selectedTags q (map textRow searchResults) tagRows))"
  by (simp add: allFilteredResults_def Let_def dateFiltered_within)

lemma allFilteredResults_by_date:
  assumes srt: "arraySort (sortRows en)"
    and s: "sortBy = ''date_desc'' \<or> sortBy = ''date_asc''"
    and p: "datesParse en searchResults" "datesParse en tagRows"
  shows "sorted_wrt (\<lambda>a b. (\<not> hasDate a \<or> rowDate en a \<noteq> None) \<and>
                           (\<not> hasDate b \<or> rowDate en b \<noteq> None) \<and>
                           sortCompare (compareRows en sortBy) a b \<le> 0)
           (allFilteredResults en searchResults tagRows selectedTags q sortBy dateRange)"
proof -
  let ?sel = "dateFiltered en dateRange (selectRows en selectedTags q (map textRow searchResults) tagRows)"
  let ?all = "allFilteredResults en searchResults tagRows selectedTags q sortBy dateRange"
  have all: "?all = sortRows en (compareRows en sortBy) ?sel"
    by (simp add: allFilteredResults_def Let_def)
  have sub: "set ?sel \<subseteq> {r. \<not> hasDate r \<or> rowDate en r \<noteq> None}"
    using p by (rule selected_datesParse)
  have "consistentOn (set ?sel) (compareRows en sortBy)"
    using consistentOn_date [OF s] sub by (rule consistentOn_subset)
  then have sorted: "sorted_wrt (\<lambda>a b. sortCompare (compareRows en sortBy) a b \<le> 0) ?all"
    unfolding all using srt by (simp add: arraySort_sorted)
  have "set ?all = set ?sel"
    unfolding all using arraySort_mset [OF srt] by (metis set_mset_mset)
  then have mem: "\<And>r. r \<in> set ?all \<Longrightarrow> \<not> hasDate r \<or> rowDate en r \<noteq> None"
    using sub by blast
  show ?thesis
    by (rule sorted_wrt_mono_rel [OF _ sorted]) (use mem in blast)
qed

lemma allFilteredResults_by_title:
  assumes srt: "arraySort (sortRows en)"
    and s: "sortBy = ''title'' \<or> sortBy = ''title_desc''"
    and lc: "consistentOn UNIV (\<lambda>s t. Some (localeCompare en s t))"
  shows "sorted_wrt (\<lambda>a b. sortCompare (compareRows en sortBy) a b \<le> 0)
           (allFilteredResults en searchResults tagRows selectedTags q sortBy dateRange)"
proof -
  have "consistentOn S (compareRows en sortBy)" for S
    using s consistentOn_title [OF lc] by blast
  then show ?thesis
    unfolding allFilteredResults_sort using srt by (simp add: arraySort_sorted)
qed

lemma allFilteredResults_unsorted:
  assumes srt: "arraySort (sortRows en)"
    and s: "sortBy \<noteq> ''date_desc''" "sortBy \<noteq> ''date_asc''" "sortBy \<noteq> ''title''"
      "sortBy \<noteq> ''title_desc''"
  shows "allFilteredResults en searchResults tagRows selectedTags q sortBy dateRange
           = filter (withinDateRange en dateRange)
               (selectRows en selectedTags q (map textRow searchResults) tagRows)"
proof -
  have "\<And>a b. compareRows en sortBy a b = Some 0"
    using s by (simp add: compareRows_def)
  then show ?thesis
    unfolding allFilteredResults_sort using srt by (rule arraySort_equal [rotated])
qed

text \<open>
  Claim C3, as stated, fails: the text-search and tag-search rows are not merged into one
  array. With a tag selected and a blank query the page shows the tag-search rows only,
  where the pipeline of the claim shows the rows of both searches.
\<close>

theorem text_rows_dropped_counterexample:
  "mergedResults exampleEngine
       [\<lparr>rowType = ''medication'', rowId = 1, title = Some ''Aspirin'', subtitle = None,
         date = Some ''2024-01-05''\<rparr>]
       [\<lparr>rowType = ''condition'', rowId = 2, title = Some ''Flu'', subtitle = Some ''resolved'',
         date = Some ''2024-03-01''\<rparr>]
       [''urgent''] '''' ''date_desc'' (None, None) 1 10
     = [\<lparr>rowType = ''condition'', rowId = 2, title = Some ''Flu'', subtitle = Some ''resolved'',
         date = Some ''2024-03-01''\<rparr>] \<and>
   specDisplayedRows exampleEngine
       [\<lparr>rowType = ''medication'', rowId = 1, title = Some ''Aspirin'', subtitle = None,
         date = Some ''2024-01-05''\<rparr>]
       [\<lparr>rowType = ''condition'', rowId = 2, title = Some ''Flu'', subtitle = Some ''resolved'',
         date = Some ''2024-03-01''\<rparr>]
       ''date_desc'' (None, None) 1 10
     = [\<lparr>rowType = ''condition'', rowId = 2, title = Some ''Flu'', subtitle = Some ''resolved'',
         date = Some ''2024-03-01''\<rparr>,
        \<lparr>rowType = ''medication'', rowId = 1, title = Some ''Aspirin'', subtitle = None,
         date = Some ''2024-01-05''\<rparr>]"
  by code_simp

text \<open>
  Claim C3, amended. Let \<open>Array.prototype.sort\<close> sort as the language specifies, and let the
  page number be at least 1. For every text-search result set, tag-search result set,
  selected tag list, query string, date range, sort key and page size, the rows the page
  displays are the page-size slice starting at \<open>(page - 1) * pageSize\<close> of an array computed
  in memory from one selection of rows: the text-search rows when no tag is selected, the
  tag-search rows when a tag is selected and the query is blank, and otherwise the
  tag-search rows whose lower-cased title or subtitle contains the trimmed, lower-cased
  query. The array has exactly the rows of the selection that pass the date filter (every
  row without a date range; with one, the rows that have a date neither before a valid
  start nor after a valid end), each as often as there. It is sorted: for \<open>date_desc\<close> and
  \<open>date_asc\<close>, when every date parses, rows with a date stand before rows without one and
  of two dated rows the later, respectively the earlier, stands first; for \<open>title\<close> and
  \<open>title_desc\<close>, when \<open>localeCompare\<close> is a consistent comparison, the lower-cased titles
  ascend, respectively descend, by \<open>localeCompare\<close>; for any other sort key the filtered
  selection keeps its order.
\<close>

theorem displayed_rows_pipeline:
  assumes "arraySort (sortRows en)" and "1 \<le> currentPage"
  shows "mergedResults en searchResults tagRows selectedTags q sortBy dateRange currentPage pageSize
           = take pageSize (drop (nat ((currentPage - 1) * int pageSize))
               (allFilteredResults en searchResults tagRows selectedTags q sortBy dateRange)) \<and>
         mset (allFilteredResults en searchResults tagRows selectedTags q sortBy dateRange)
           = mset (filter (withinDateRange en dateRange)
                     (selectRows en selectedTags q (map textRow searchResults) tagRows)) \<and>
         selectRows en selectedTags q (map textRow searchResults) tagRows
           = (if selectedTags = [] then map textRow searchResults
              else if js_trim q = [] then tagRows
              else filter
                     (\<lambda>r. (case title r of None \<Rightarrow> False
                            | Some s \<Rightarrow> js_includes (toLowerCase en s) (toLowerCase en (js_trim q))) \<or>
                          (case subtitle r of None \<Rightarrow> False
                            | Some s \<Rightarrow> js_includes (toLowerCase en s) (toLowerCase en (js_trim q))))
                     tagRows) \<and>
         (sortBy = ''date_desc'' \<and> datesParse en searchResults \<and> datesParse en tagRows
          \<longrightarrow> sorted_wrt (newerFirst en)
                (allFilteredResults en searchResults tagRows selectedTags q sortBy dateRange)) \<and>
         (sortBy = ''date_asc'' \<and> datesParse en searchResults \<and> datesParse en tagRows
          \<longrightarrow> sorted_wrt (olderFirst en)
                (allFilteredResults en searchResults tagRows selectedTags q sortBy dateRange)) \<and>
         (sortBy = ''title'' \<and> consistentOn UNIV (\<lambda>s t. Some (localeCompare en s t))
          \<longrightarrow> sorted_wrt (\<lambda>a b. localeCompare en (titleKey en a) (titleKey en b) \<le> 0)
                (allFilteredResults en searchResults tagRows selectedTags q sortBy dateRange)) \<and>
         (sortBy = ''title_desc'' \<and> consistentOn UNIV (\<lambda>s t. Some (localeCompare en s t))
          \<longrightarrow> sorted_wrt (\<lambda>a b. localeCompare en (titleKey en b) (titleKey en a) \<le> 0)
                (allFilteredResults en searchResults tagRows selectedTags q sortBy dateRange)) \<and>
         (sortBy \<noteq> ''date_desc'' \<and> sortBy \<noteq> ''date_asc'' \<and> sortBy \<noteq> ''title'' \<and>
          sortBy \<noteq> ''title_desc''
          \<longrightarrow> allFilteredResults en searchResults tagRows selectedTags q sortBy dateRange
                = filter (withinDateRange en dateRange)
                    (selectRows en selectedTags q (map textRow searchResults) tagRows))"
proof -
  let ?all = "allFilteredResults en searchResults tagRows selectedTags q sortBy dateRange"
  let ?sel = "selectRows en selectedTags q (map textRow searchResults) tagRows"
  have "0 \<le> (currentPage - 1) * int pageSize"
    using assms(2) by simp
  then have a: "mergedResults en searchResults tagRows selectedTags q sortBy dateRange currentPage pageSize
           = take pageSize (drop (nat ((currentPage - 1) * int pageSize)) ?all)"
    by (simp add: mergedResults_def Let_def js_slice_page)
  have b: "mset ?all = mset (filter (withinDateRange en dateRange) ?sel)"
    unfolding allFilteredResults_sort using assms(1) by (rule arraySort_mset)
  have c: "?sel
           = (if selectedTags = [] then map textRow searchResults
              else if js_trim q = [] then tagRows
              else filter
                     (\<lambda>r. (case title r of None \<Rightarrow> False
                            | Some s \<Rightarrow> js_includes (toLowerCase en s) (toLowerCase en (js_trim q))) \<or>
                          (case subtitle r of None \<Rightarrow> False
                            | Some s \<Rightarrow> js_includes (toLowerCase en s) (toLowerCase en (js_trim q))))
                     tagRows)"
    by (auto simp: selectRows_def Let_def js_trim_Nil fieldIncludes_def)
  have d1: "sortBy = ''date_desc'' \<and> datesParse en searchResults \<and> datesParse en tagRows
          \<longrightarrow> sorted_wrt (newerFirst en) ?all"
  proof (intro impI, elim conjE)
    assume s: "sortBy = ''date_desc''" and p: "datesParse en searchResults" "datesParse en tagRows"
    have "sorted_wrt (\<lambda>a b. (\<not> hasDate a \<or> rowDate en a \<noteq> None) \<and>
                           (\<not> hasDate b \<or> rowDate en b \<noteq> None) \<and>
                           sortCompare (compareRows en sortBy) a b \<le> 0) ?all"
      using assms(1) _ p by (rule allFilteredResults_by_date) (simp add: s)
    then show "sorted_wrt (newerFirst en) ?all"
      by (rule sorted_wrt_mono_rel [rotated]) (use s newerFirst_of_compare in blast)
  qed
  have d2: "sortBy = ''date_asc'' \<and> datesParse en searchResults \<and> datesParse en tagRows
          \<longrightarrow> sorted_wrt (olderFirst en) ?all"
  proof (intro impI, elim conjE)
    assume s: "sortBy = ''date_asc''" and p: "datesParse en searchResults" "datesParse en tagRows"
    have "sorted_wrt (\<lambda>a b. (\<not> hasDate a \<or> rowDate en a \<noteq> None) \<and>
                           (\<not> hasDate b \<or> rowDate en b \<noteq> None) \<and>
                           sortCompare (compareRows en sortBy) a b \<le> 0) ?all"
      using assms(1) _ p by (rule allFilteredResults_by_date) (simp add: s)
    then show "sorted_wrt (olderFirst en) ?all"
      by (rule sorted_wrt_mono_rel [rotated]) (use s olderFirst_of_compare in blast)
  qed
  have d3: "sortBy = ''title'' \<and> consistentOn UNIV (\<lambda>s t. Some (localeCompare en s t))
          \<longrightarrow> sorted_wrt (\<lambda>a b. localeCompare en (titleKey en a) (titleKey en b) \<le> 0) ?all"
  proof (intro impI, elim conjE)
    assume s: "sortBy = ''title''" and lc: "consistentOn UNIV (\<lambda>s t. Some (localeCompare en s t))"
    have "sorted_wrt (\<lambda>a b. sortCompare (compareRows en sortBy) a b \<le> 0) ?all"
      using assms(1) _ lc by (rule allFilteredResults_by_title) (simp add: s)
    then show "sorted_wrt (\<lambda>a b. localeCompare en (titleKey en a) (titleKey en b) \<le> 0) ?all"
      by (simp add: s compareRows_def sortCompare_def)
  qed
  have d4: "sortBy = ''title_desc'' \<and> consistentOn UNIV (\<lambda>s t. Some (localeCompare en s t))
          \<longrightarrow> sorted_wrt (\<lambda>a b. localeCompare en (titleKey en b) (titleKey en a) \<le> 0) ?all"
  proof (intro impI, elim conjE)
    assume s: "sortBy = ''title_desc''" and lc: "consistentOn UNIV (\<lambda>s t. Some (localeCompare en s t))"
    have "sorted_wrt (\<lambda>a b. sortCompare (compareRows en sortBy) a b \<le> 0) ?all"
      using assms(1) _ lc by (rule allFilteredResults_by_title) (simp add: s)
    then show "sorted_wrt (\<lambda>a b. localeCompare en (titleKey en b) (titleKey en a) \<le> 0) ?all"
      by (simp add: s compareRows_def sortCompare_def)
  qed
  have d5: "sortBy \<noteq> ''date_desc'' \<and> sortBy \<noteq> ''date_asc'' \<and> sortBy \<noteq> ''title'' \<and>
          sortBy \<noteq> ''title_desc''
          \<longrightarrow> ?all = filter (withinDateRange en dateRange) ?sel"
    using allFilteredResults_unsorted [OF assms(1)] by blast
  from a b c d1 d2 d3 d4 d5 show ?thesis by blast
qed

theorem displayed_rows_pipeline_witness:
  "datesParse exampleEngine
     [\<lparr>rowType = ''medication'', rowId = 1, title = Some ''Aspirin'', subtitle = None,
       date = Some ''2024-01-05''\<rparr>,
      \<lparr>rowType = ''allergy'', rowId = 3, title = Some ''Pollen'', subtitle = None, date = None\<rparr>,
      \<lparr>rowType = ''condition'', rowId = 2, title = Some ''Flu'', subtitle = Some ''resolved'',
       date = Some ''2024-03-01''\<rparr>] \<and>
   datesParse exampleEngine [] \<and>
   mergedResults exampleEngine
       [\<lparr>rowType = ''medication'', rowId = 1, title = Some ''Aspirin'', subtitle = None,
         date = Some ''2024-01-05''\<rparr>,
        \<lparr>rowType = ''allergy'', rowId = 3, title = Some ''Pollen'', subtitle = None, date = None\<rparr>,
        \<lparr>rowType = ''condition'', rowId = 2, title = Some ''Flu'', subtitle = Some ''resolved'',
         date = Some ''2024-03-01''\<rparr>]
       [] [] '''' ''date_desc'' (None, None) 2 2
     = [\<lparr>rowType = ''allergy'', rowId = 3, title = Some ''Pollen'', subtitle = None, date = None\<rparr>] \<and>
   sorted_wrt (newerFirst exampleEngine)
     (allFilteredResults exampleEngine
        [\<lparr>rowType = ''medication'', rowId = 1, title = Some ''Aspirin'', subtitle = None,
          date = Some ''2024-01-05''\<rparr>,
         \<lparr>rowType = ''allergy'', rowId = 3, title = Some ''Pollen'', subtitle = None, date = None\<rparr>,
         \<lparr>rowType = ''condition'', rowId = 2, title = Some ''Flu'', subtitle = Some ''resolved'',
          date = Some ''2024-03-01''\<rparr>]
        [] [] '''' ''date_desc'' (None, None)) \<and>
   mergedResults exampleEngine []
       [\<lparr>rowType = ''condition'', rowId = 2, title = Some ''Flu'', subtitle = Some ''resolved'',
         date = Some ''2024-03-01''\<rparr>,
        \<lparr>rowType = ''visit'', rowId = 4, title = Some ''Checkup'', subtitle = Some ''FLU shot'',
         date = Some ''2024-01-05''\<rparr>,
        \<lparr>rowType = ''medication'', rowId = 1, title = Some ''Aspirin'', subtitle = None,
         date = Some ''2024-01-05''\<rparr>]
       [''urgent''] '' Flu '' ''title'' (Some (Some 1704000000000), None) 1 10
     = [\<lparr>rowType = ''visit'', rowId = 4, title = Some ''Checkup'', subtitle = Some ''FLU shot'',
         date = Some ''2024-01-05''\<rparr>,
        \<lparr>rowType = ''condition'', rowId = 2, title = Some ''Flu'', subtitle = Some ''resolved'',
         date = Some ''2024-03-01''\<rparr>] \<and>
   sorted_wrt
     (\<lambda>a b. localeCompare exampleEngine (titleKey exampleEngine a) (titleKey exampleEngine b) \<le> 0)
     (allFilteredResults exampleEngine []
        [\<lparr>rowType = ''condition'', rowId = 2, title = Some ''Flu'', subtitle = Some ''resolved'',
          date = Some ''2024-03-01''\<rparr>,
         \<lparr>rowType = ''visit'', rowId = 4, title = Some ''Checkup'', subtitle = Some ''FLU shot'',
          date = Some ''2024-01-05''\<rparr>,
         \<lparr>rowType = ''medication'', rowId = 1, title = Some ''Aspirin'', subtitle = None,
          date = Some ''2024-01-05''\<rparr>]
        [''urgent''] '' Flu '' ''title'' (Some (Some 1704000000000), None))"
proof -
  let ?r1 = "\<lparr>rowType = ''medication'', rowId = 1, title = Some ''Aspirin'', subtitle = None,
              date = Some ''2024-01-05''\<rparr>"
  let ?r2 = "\<lparr>rowType = ''condition'', rowId = 2, title = Some ''Flu'', subtitle = Some ''resolved'',
              date = Some ''2024-03-01''\<rparr>"
  let ?r3 = "\<lparr>rowType = ''allergy'', rowId = 3, title = Some ''Pollen'', subtitle = None,
              date = None\<rparr>"
  let ?r4 = "\<lparr>rowType = ''visit'', rowId = 4, title = Some ''Checkup'', subtitle = Some ''FLU shot'',
              date = Some ''2024-01-05''\<rparr>"
  let ?range = "(Some (Some (1704000000000::int)), None :: int option option)"
  let ?byDate = "allFilteredResults exampleEngine [?r1, ?r3, ?r2] [] [] '''' ''date_desc'' (None, None)"
  let ?byTitle = "allFilteredResults exampleEngine [] [?r2, ?r4, ?r1] [''urgent''] '' Flu '' ''title'' ?range"
  have srt: "arraySort (sortRows exampleEngine)"
    by (simp add: exampleEngine_def arraySort_stableSort)
  have lc: "consistentOn UNIV (\<lambda>s t. Some (localeCompare exampleEngine s t))"
    by (simp add: exampleEngine_def consistentOn_codePointCompare)
  have h2: "(1::int) \<le> 2" and h1: "(1::int) \<le> 1" by simp_all
  have d1: "datesParse exampleEngine [?r1, ?r3, ?r2]" by code_simp
  have d2: "datesParse exampleEngine []" by code_simp
  have ev1: "?byDate = [?r2, ?r1, ?r3]" by code_simp
  have ev2: "?byTitle = [?r4, ?r2]" by code_simp
  note byDate = displayed_rows_pipeline [OF srt h2, of "[?r1, ?r3, ?r2]" "[]" "[]" "''''"
      "''date_desc''" "(None, None)" 2]
  note byTitle = displayed_rows_pipeline [OF srt h1, of "[]" "[?r2, ?r4, ?r1]" "[''urgent'']"
      "'' Flu ''" "''title''" ?range 10]
  have "mergedResults exampleEngine [?r1, ?r3, ?r2] [] [] '''' ''date_desc'' (None, None) 2 2
          = take 2 (drop (nat ((2 - 1) * int 2)) ?byDate)"
    by (rule byDate [THEN conjunct1])
  also have "\<dots> = [?r3]"
    unfolding ev1 by simp
  finally have m1: "mergedResults exampleEngine [?r1, ?r3, ?r2] [] [] '''' ''date_desc'' (None, None) 2 2
          = [?r3]" .
  have s1: "sorted_wrt (newerFirst exampleEngine) ?byDate"
    using byDate [THEN conjunct2, THEN conjunct2, THEN conjunct2, THEN conjunct1] d1 d2 by blast
  have "mergedResults exampleEngine [] [?r2, ?r4, ?r1] [''urgent''] '' Flu '' ''title'' ?range 1 10
          = take 10 (drop (nat ((1 - 1) * int 10)) ?byTitle)"
    by (rule byTitle [THEN conjunct1])
  also have "\<dots> = [?r4, ?r2]"
    unfolding ev2 by simp
  finally have m2: "mergedResults exampleEngine [] [?r2, ?r4, ?r1] [''urgent''] '' Flu '' ''title'' ?range 1 10
          = [?r4, ?r2]" .
  have s2: "sorted_wrt
     (\<lambda>a b. localeCompare exampleEngine (titleKey exampleEngine a) (titleKey exampleEngine b) \<le> 0)
     ?byTitle"
    using byTitle [THEN conjunct2, THEN conjunct2, THEN conjunct2, THEN conjunct2, THEN conjunct2,
        THEN conjunct1] lc by blast
  from d1 d2 m1 s1 m2 s2 show ?thesis by blast
qed

end
